theory Spec2Isabelle
  imports Complex_Main
begin

section \<open>JavaScript numbers\<close>

text \<open>
  The program computes with JavaScript numbers. In this first model they are exact reals
  extended with the three special values of the language: \<open>Infinity\<close>,
  \<open>-Infinity\<close> and \<open>NaN\<close>. The special values propagate as the language prescribes
  (\<open>0 * Infinity = NaN\<close>, every comparison with \<open>NaN\<close> is false, and so on); the
  rounding and the overflow of a finite result are added in section
  \<open>Double-precision arithmetic\<close>, as a rounding function applied after each exact
  operation, for the properties that depend on them. The sign of zero is not modelled.
\<close>

datatype jsnum = Fin real | PInf | NInf | NaN

instantiation jsnum :: "{plus, minus, uminus, times, inverse, ord}"
begin

fun uminus_jsnum :: "jsnum \<Rightarrow> jsnum" where
  "uminus_jsnum (Fin a) = Fin (- a)"
| "uminus_jsnum PInf = NInf"
| "uminus_jsnum NInf = PInf"
| "uminus_jsnum NaN = NaN"

fun plus_jsnum :: "jsnum \<Rightarrow> jsnum \<Rightarrow> jsnum" where
  "plus_jsnum (Fin a) (Fin b) = Fin (a + b)"
| "plus_jsnum (Fin a) PInf = PInf"
| "plus_jsnum (Fin a) NInf = NInf"
| "plus_jsnum PInf (Fin b) = PInf"
| "plus_jsnum PInf PInf = PInf"
| "plus_jsnum NInf (Fin b) = NInf"
| "plus_jsnum NInf NInf = NInf"
| "plus_jsnum _ _ = NaN"

definition minus_jsnum :: "jsnum \<Rightarrow> jsnum \<Rightarrow> jsnum" where
  "minus_jsnum a b = a + (- b)"

fun times_jsnum :: "jsnum \<Rightarrow> jsnum \<Rightarrow> jsnum" where
  "times_jsnum (Fin a) (Fin b) = Fin (a * b)"
| "times_jsnum (Fin a) PInf = (if 0 < a then PInf else if a < 0 then NInf else NaN)"
| "times_jsnum (Fin a) NInf = (if 0 < a then NInf else if a < 0 then PInf else NaN)"
| "times_jsnum PInf (Fin b) = (if 0 < b then PInf else if b < 0 then NInf else NaN)"
| "times_jsnum NInf (Fin b) = (if 0 < b then NInf else if b < 0 then PInf else NaN)"
| "times_jsnum PInf PInf = PInf"
| "times_jsnum PInf NInf = NInf"
| "times_jsnum NInf PInf = NInf"
| "times_jsnum NInf NInf = PInf"
| "times_jsnum _ _ = NaN"

fun divide_jsnum :: "jsnum \<Rightarrow> jsnum \<Rightarrow> jsnum" where
  "divide_jsnum (Fin a) (Fin b) =
     (if b \<noteq> 0 then Fin (a / b)
      else if 0 < a then PInf else if a < 0 then NInf else NaN)"
| "divide_jsnum (Fin a) PInf = Fin 0"
| "divide_jsnum (Fin a) NInf = Fin 0"
| "divide_jsnum PInf (Fin b) = (if 0 \<le> b then PInf else NInf)"
| "divide_jsnum NInf (Fin b) = (if 0 \<le> b then NInf else PInf)"
| "divide_jsnum _ _ = NaN"

definition inverse_jsnum :: "jsnum \<Rightarrow> jsnum" where
  "inverse_jsnum a = divide (Fin 1) a"

fun less_jsnum :: "jsnum \<Rightarrow> jsnum \<Rightarrow> bool" where
  "less_jsnum (Fin a) (Fin b) = (a < b)"
| "less_jsnum (Fin a) PInf = True"
| "less_jsnum NInf (Fin b) = True"
| "less_jsnum NInf PInf = True"
| "less_jsnum _ _ = False"

fun less_eq_jsnum :: "jsnum \<Rightarrow> jsnum \<Rightarrow> bool" where
  "less_eq_jsnum (Fin a) (Fin b) = (a \<le> b)"
| "less_eq_jsnum (Fin a) PInf = True"
| "less_eq_jsnum NInf (Fin b) = True"
| "less_eq_jsnum NInf PInf = True"
| "less_eq_jsnum PInf PInf = True"
| "less_eq_jsnum NInf NInf = True"
| "less_eq_jsnum _ _ = False"

instance ..

end

text \<open>\<open>a === b\<close> and \<open>a !== b\<close> on numbers: \<open>NaN\<close> is not equal to itself.\<close>

definition strict_eq :: "jsnum \<Rightarrow> jsnum \<Rightarrow> bool" where
  "strict_eq a b = (a \<noteq> NaN \<and> a = b)"

definition strict_neq :: "jsnum \<Rightarrow> jsnum \<Rightarrow> bool" where
  "strict_neq a b = (\<not> strict_eq a b)"

text \<open>The truth value of a number in a condition: \<open>0\<close> and \<open>NaN\<close> are falsy.\<close>

fun truthy :: "jsnum \<Rightarrow> bool" where
  "truthy (Fin a) = (a \<noteq> 0)"
| "truthy NaN = False"
| "truthy _ = True"

fun Math_abs :: "jsnum \<Rightarrow> jsnum" where
  "Math_abs (Fin a) = Fin \<bar>a\<bar>"
| "Math_abs NaN = NaN"
| "Math_abs _ = PInf"

fun Math_sign :: "jsnum \<Rightarrow> jsnum" where
  "Math_sign (Fin a) = Fin (sgn a)"
| "Math_sign PInf = Fin 1"
| "Math_sign NInf = Fin (- 1)"
| "Math_sign NaN = NaN"

fun Math_sqrt :: "jsnum \<Rightarrow> jsnum" where
  "Math_sqrt (Fin a) = (if a < 0 then NaN else Fin (sqrt a))"
| "Math_sqrt PInf = PInf"
| "Math_sqrt _ = NaN"

fun Math_sin :: "jsnum \<Rightarrow> jsnum" where
  "Math_sin (Fin a) = Fin (sin a)"
| "Math_sin _ = NaN"

fun Math_cos :: "jsnum \<Rightarrow> jsnum" where
  "Math_cos (Fin a) = Fin (cos a)"
| "Math_cos _ = NaN"

definition Math_PI :: jsnum where
  "Math_PI = Fin pi"

text \<open>\<open>Math.min(a, b)\<close> and \<open>Math.max(a, b)\<close>: \<open>NaN\<close> if either argument is.\<close>

definition Math_min :: "jsnum \<Rightarrow> jsnum \<Rightarrow> jsnum" where
  "Math_min a b = (if a = NaN \<or> b = NaN then NaN else if a < b then a else b)"

definition Math_max :: "jsnum \<Rightarrow> jsnum \<Rightarrow> jsnum" where
  "Math_max a b = (if a = NaN \<or> b = NaN then NaN else if a < b then b else a)"

text \<open>\<open>Math.min(...ts)\<close> over an array: \<open>Infinity\<close> for the empty array.\<close>

definition Math_min_list :: "jsnum list \<Rightarrow> jsnum" where
  "Math_min_list ts = foldl Math_min PInf ts"

section \<open>Geometry utilities\<close>

type_synonym vec = "jsnum \<times> jsnum"

definition dot :: "vec \<Rightarrow> vec \<Rightarrow> jsnum" where
  "dot v1 v2 = fst v1 * fst v2 + snd v1 * snd v2"

definition reflect :: "vec \<Rightarrow> vec \<Rightarrow> vec" where
  "reflect incidentVec normalVec =
     (let d = dot incidentVec normalVec
      in (fst incidentVec - Fin 2 * d * fst normalVec,
          snd incidentVec - Fin 2 * d * snd normalVec))"

definition refract :: "vec \<Rightarrow> vec \<Rightarrow> jsnum \<Rightarrow> jsnum \<Rightarrow> vec \<times> bool" where
  "refract incidentVec normalVec n1 n2 =
     (let n_ratio = n1 / n2;
          cos_i = - dot normalVec incidentVec;
          sin_t2 = n_ratio * n_ratio * (Fin 1 - cos_i * cos_i)
      in if Fin 1 < sin_t2 then (reflect incidentVec normalVec, True)
         else
           let cos_t = Math_sqrt (Fin 1 - sin_t2);
               term1_x = n_ratio * fst incidentVec;
               term1_y = n_ratio * snd incidentVec;
               term2_x = (n_ratio * cos_i - cos_t) * fst normalVec;
               term2_y = (n_ratio * cos_i - cos_t) * snd normalVec
           in ((term1_x + term2_x, term1_y + term2_y), False))"

definition getLineSegmentIntersection :: "vec \<Rightarrow> vec \<Rightarrow> vec \<Rightarrow> vec \<Rightarrow> vec option" where
  "getLineSegmentIntersection rayStart rayDir p1 p2 =
     (let v1 = (fst rayStart - fst p1, snd rayStart - snd p1);
          v2 = (fst p2 - fst p1, snd p2 - snd p1);
          v3 = (- snd rayDir, fst rayDir);
          dot_v2_v3 = dot v2 v3
      in if Math_abs dot_v2_v3 < Fin (1 / 10 ^ 9) then None
         else
           let t1 = (fst v2 * snd v1 - snd v2 * fst v1) / dot_v2_v3;
               t2 = dot v1 v3 / dot_v2_v3
           in if Fin 0 \<le> t1 \<and> Fin 0 \<le> t2 \<and> t2 \<le> Fin 1
              then Some (fst rayStart + t1 * fst rayDir, snd rayStart + t1 * snd rayDir)
              else None)"

section \<open>Cell model\<close>

text \<open>A ray segment \<open>{start, direction}\<close> in cell-local coordinates.\<close>

record segment =
  seg_start :: vec
  seg_direction :: vec

text \<open>
  The cell classes. A beam colour is a string or \<open>undefined\<close> (\<open>None\<close>).
  \<open>TargetCell\<close> and \<open>CrossCell\<close> extend \<open>BlockCell\<close> and are always constructed
  with the default colour, which their own \<open>interact\<close> never reads; \<open>TargetCell\<close>
  carries the \<open>receive\<close> flag (\<open>undefined\<close>, which is falsy, until first set).
  The refractive indices of a glass block are an object literal, kept as an association list.
\<close>

datatype cell =
    EmptyCell
  | BlockCell string
  | TargetCell bool
  | CrossCell jsnum jsnum
  | GlassBlockCell "(string \<times> jsnum) list"
  | FixedMirrorCell
  | RotatableMirrorCell jsnum

definition BaseCell_interact :: "segment list \<times> bool" where
  "BaseCell_interact = ([], False)"

definition BlockCell_interact ::
  "string \<Rightarrow> vec \<Rightarrow> vec \<Rightarrow> vec \<Rightarrow> string option \<Rightarrow> segment list \<times> bool" where
  "BlockCell_interact this_color start direction normal color =
     (if color = Some this_color then ([], False)
      else ([\<lparr>seg_start = start, seg_direction = direction\<rparr>], True))"

text \<open>\<open>TargetCell.interact\<close> also sets \<open>this.receive = true\<close>; see \<open>interact\<close> below.\<close>

definition TargetCell_interact :: "vec \<Rightarrow> vec \<Rightarrow> segment list \<times> bool" where
  "TargetCell_interact start direction = ([\<lparr>seg_start = start, seg_direction = direction\<rparr>], True)"

definition CrossCell_interact :: "jsnum \<Rightarrow> jsnum \<Rightarrow> vec \<Rightarrow> vec \<Rightarrow> segment list \<times> bool" where
  "CrossCell_interact rotation width start direction =
     (let perpendicular_dist = fst start * snd direction - snd start * fst direction
      in if Fin 0.5 < Math_abs perpendicular_dist then ([], False)
         else
           let angle = rotation;
               cos = Math_cos angle;
               sin = Math_sin angle;
               rs = (fst start * cos - snd start * (- sin), fst start * (- sin) + snd start * cos);
               rd = (fst direction * cos - snd direction * (- sin),
                     fst direction * (- sin) + snd direction * cos);
               sin_w = Math_sin width;
               cos_w = Math_cos width;
               b = dot rs rd;
               c = dot rs rs - Fin 0.25;
               discriminant = b * b - c
           in if Fin 0 \<le> discriminant then
                let t1 = - b - Math_sqrt discriminant;
                    t2 = - b + Math_sqrt discriminant;
                    h1 = (fst rs + t1 * fst rd, snd rs + t1 * snd rd);
                    h2 = (fst rs + t2 * fst rd, snd rs + t2 * snd rd)
                in if Fin (- 0.5) * sin_w < fst h1 \<and> fst h1 < Fin 0.5 * sin_w
                      \<and> Fin (- 0.5) * sin_w < fst h2 \<and> fst h2 < Fin 0.5 * sin_w
                   then ([], False)
                   else if Fin (- 0.5) * sin_w < snd h1 \<and> snd h1 < Fin 0.5 * sin_w
                      \<and> Fin (- 0.5) * sin_w < snd h2 \<and> snd h2 < Fin 0.5 * sin_w
                   then ([], False)
                   else
                     let rh =
                       (if (Fin (- 0.5) * sin_w < fst h1 \<and> fst h1 < Fin 0.5 * sin_w)
                           \<or> (Fin (- 0.5) * sin_w < snd h1 \<and> snd h1 < Fin 0.5 * sin_w)
                        then
                          let valid_ts =
                            (if Fin (1 / 10 ^ 9) < Math_abs (fst rd) then
                               (let t_pos = (Fin 0.5 * sin_w - fst rs) / fst rd;
                                    y_pos = snd rs + t_pos * snd rd;
                                    t_neg = (Fin (- 0.5) * sin_w - fst rs) / fst rd;
                                    y_neg = snd rs + t_neg * snd rd
                                in (if Fin (1 / 10 ^ 9) < t_pos \<and> Math_abs y_pos \<le> Fin 0.5 * cos_w
                                       \<and> Fin 0.5 * sin_w \<le> Math_abs y_pos
                                    then [t_pos] else [])
                                   @ (if Fin (1 / 10 ^ 9) < t_neg \<and> Math_abs y_neg \<le> Fin 0.5 * cos_w
                                       \<and> Fin 0.5 * sin_w \<le> Math_abs y_neg
                                    then [t_neg] else []))
                             else [])
                            @ (if Fin (1 / 10 ^ 9) < Math_abs (snd rd) then
                               (let t_pos = (Fin 0.5 * sin_w - snd rs) / snd rd;
                                    x_pos = fst rs + t_pos * fst rd;
                                    t_neg = (Fin (- 0.5) * sin_w - snd rs) / snd rd;
                                    x_neg = fst rs + t_neg * fst rd
                                in (if Fin (1 / 10 ^ 9) < t_pos \<and> Math_abs x_pos \<le> Fin 0.5 * cos_w
                                       \<and> Fin 0.5 * sin_w \<le> Math_abs x_pos
                                    then [t_pos] else [])
                                   @ (if Fin (1 / 10 ^ 9) < t_neg \<and> Math_abs x_neg \<le> Fin 0.5 * cos_w
                                       \<and> Fin 0.5 * sin_w \<le> Math_abs x_neg
                                    then [t_neg] else []))
                             else []);
                              t_hit = Math_min_list valid_ts
                          in (fst rs + t_hit * fst rd, snd rs + t_hit * snd rd)
                        else h1);
                         hit = (fst rh * cos - snd rh * sin, fst rh * sin + snd rh * cos)
                     in ([\<lparr>seg_start = hit, seg_direction = direction\<rparr>], True)
              else ([\<lparr>seg_start = start, seg_direction = direction\<rparr>], True))"

text \<open>
  The exit-face search of \<open>GlassBlockCell.interact\<close>: the \<open>for\<close> loop, with the number
  of iterations still allowed as its first argument (100 at the start).
\<close>

fun glass_loop :: "nat \<Rightarrow> jsnum \<Rightarrow> vec \<Rightarrow> vec \<Rightarrow> segment list \<Rightarrow> segment list" where
  "glass_loop 0 n2 pos dir path = path"
| "glass_loop (Suc k) n2 pos dir path =
     (let t_x = (if strict_neq (fst dir) (Fin 0)
                 then ((if Fin 0 < fst dir then Fin 0.5 else Fin (- 0.5)) - fst pos) / fst dir
                 else PInf);
          t_y = (if strict_neq (snd dir) (Fin 0)
                 then ((if Fin 0 < snd dir then Fin 0.5 else Fin (- 0.5)) - snd pos) / snd dir
                 else PInf);
          t_exit = Math_min t_x t_y;
          exitPoint = (fst pos + t_exit * fst dir, snd pos + t_exit * snd dir);
          exitNormal = (if Math_abs (t_x - t_exit) < Fin (1 / 10 ^ 9)
                        then (- Math_sign (fst dir), Fin 0)
                        else (Fin 0, - Math_sign (snd dir)));
          (exitDirection, exitReflecting) = refract dir exitNormal n2 (Fin 1);
          path' = path @ [\<lparr>seg_start = exitPoint, seg_direction = exitDirection\<rparr>]
      in if \<not> exitReflecting then path'
         else glass_loop k n2 exitPoint exitDirection path')"

text \<open>
  A property read \<open>obj[color]\<close>: the key of an \<open>undefined\<close> colour is the string
  \<open>"undefined"\<close>; a missing key reads as \<open>undefined\<close>, which is \<open>NaN\<close> in the
  divisions of \<open>refract\<close>, the only place the value is used.
\<close>

definition property_key :: "string option \<Rightarrow> string" where
  "property_key color = (case color of None \<Rightarrow> ''undefined'' | Some c \<Rightarrow> c)"

definition refractiveIndex :: "(string \<times> jsnum) list \<Rightarrow> string option \<Rightarrow> jsnum" where
  "refractiveIndex refractiveIndices color =
     (case map_of refractiveIndices (property_key color) of None \<Rightarrow> NaN | Some v \<Rightarrow> v)"

definition GlassBlockCell_interact ::
  "(string \<times> jsnum) list \<Rightarrow> vec \<Rightarrow> vec \<Rightarrow> vec \<Rightarrow> string option \<Rightarrow> segment list \<times> bool" where
  "GlassBlockCell_interact refractiveIndices start direction nrm color =
     (let n1 = Fin 1;
          n2 = refractiveIndex refractiveIndices color;
          (entryDirection, entryReflecting) = refract direction nrm n1 n2;
          path = [\<lparr>seg_start = start, seg_direction = entryDirection\<rparr>]
      in if entryReflecting then (path, False)
         else (glass_loop 100 n2 start entryDirection path, False))"

definition FixedMirrorCell_interact :: "vec \<Rightarrow> vec \<Rightarrow> vec \<Rightarrow> segment list \<times> bool" where
  "FixedMirrorCell_interact start direction nrm =
     (let dir = reflect direction nrm
      in ([\<lparr>seg_start = start, seg_direction = dir\<rparr>], False))"

definition RotatableMirrorCell_interact :: "jsnum \<Rightarrow> vec \<Rightarrow> vec \<Rightarrow> segment list \<times> bool" where
  "RotatableMirrorCell_interact rotation pos direction =
     (let angle = rotation;
          p1 = (Fin (- 0.5) * Math_cos angle, Fin (- 0.5) * Math_sin angle);
          p2 = (Fin 0.5 * Math_cos angle, Fin 0.5 * Math_sin angle)
      in case getLineSegmentIntersection pos direction p1 p2 of
           Some intersection \<Rightarrow>
             let mirrorVec = (fst p2 - fst p1, snd p2 - snd p1);
                 normalVec0 = (- snd mirrorVec, fst mirrorVec);
                 len = Math_sqrt (fst normalVec0 * fst normalVec0 + snd normalVec0 * snd normalVec0);
                 normalVec1 = (fst normalVec0 / len, snd normalVec0 / len);
                 normalVec = (if Fin 0 < dot direction normalVec1
                              then (fst normalVec1 * Fin (- 1), snd normalVec1 * Fin (- 1))
                              else normalVec1);
                 newDirection = reflect direction normalVec
             in ([\<lparr>seg_start = intersection, seg_direction = newDirection\<rparr>], False)
         | None \<Rightarrow> ([], False))"

text \<open>
  Method dispatch on the class of the cell. The third component is the cell after the
  call: only \<open>TargetCell.interact\<close> writes to its object.
\<close>

fun interact ::
  "cell \<Rightarrow> vec \<Rightarrow> vec \<Rightarrow> vec \<Rightarrow> string option \<Rightarrow> (segment list \<times> bool) \<times> cell" where
  "interact EmptyCell start direction normal color = (BaseCell_interact, EmptyCell)"
| "interact (BlockCell c) start direction normal color =
     (BlockCell_interact c start direction normal color, BlockCell c)"
| "interact (TargetCell r) start direction normal color =
     (TargetCell_interact start direction, TargetCell True)"
| "interact (CrossCell rotation width) start direction normal color =
     (CrossCell_interact rotation width start direction, CrossCell rotation width)"
| "interact (GlassBlockCell ri) start direction normal color =
     (GlassBlockCell_interact ri start direction normal color, GlassBlockCell ri)"
| "interact FixedMirrorCell start direction normal color =
     (FixedMirrorCell_interact start direction normal, FixedMirrorCell)"
| "interact (RotatableMirrorCell rotation) start direction normal color =
     (RotatableMirrorCell_interact rotation start direction, RotatableMirrorCell rotation)"

section \<open>Ray tracer\<close>

datatype error = TypeError

text \<open>
  A beam of the level data, after the per-frame deep copy. The colour is optional;
  \<open>beam_cell\<close> is the array \<open>[col, row]\<close>.
\<close>

record beam =
  beam_start :: vec
  beam_direction :: vec
  beam_cell :: vec
  beam_color :: "string option"
  beam_path :: "vec list"

text \<open>
  An array read \<open>xs[i]\<close> with a number as index: \<open>undefined\<close> (\<open>None\<close>) unless the
  number is an integer from \<open>0\<close> up to the length.
\<close>

definition array_get :: "'a list \<Rightarrow> jsnum \<Rightarrow> 'a option" where
  "array_get xs i =
     (case i of
        Fin r \<Rightarrow> if of_int \<lfloor>r\<rfloor> = r \<and> 0 \<le> r \<and> r < real (length xs)
                 then Some (xs ! nat \<lfloor>r\<rfloor>) else None
      | _ \<Rightarrow> None)"

text \<open>
  The cell object at \<open>grid[cy][cx]\<close> is mutated in place by \<open>interact\<close>; in the model
  the cell after the call is stored back at the same (valid) position.
\<close>

definition array_set :: "'a list \<Rightarrow> jsnum \<Rightarrow> 'a \<Rightarrow> 'a list" where
  "array_set xs i v = (case i of Fin r \<Rightarrow> xs[nat \<lfloor>r\<rfloor> := v] | _ \<Rightarrow> xs)"

definition set_cell :: "cell list list \<Rightarrow> jsnum \<Rightarrow> jsnum \<Rightarrow> cell \<Rightarrow> cell list list" where
  "set_cell grid cy cx c =
     (case array_get grid cy of
        None \<Rightarrow> grid
      | Some row \<Rightarrow> array_set grid cy (array_set row cx c))"

definition MAX_INTERACTIONS :: nat where
  "MAX_INTERACTIONS = 100"

text \<open>
  The local variables of the \<open>while\<close> loop of \<open>trackRays\<close>: \<open>interactionCount\<close>,
  \<open>[sx, sy]\<close>, \<open>[dx, dy]\<close>, \<open>[cx, cy]\<close>, \<open>[x, y]\<close>, \<open>normal\<close>, together with
  \<open>beam.path\<close> and the grid.
\<close>

record trace =
  interactionCount :: nat
  t_s :: vec
  t_d :: vec
  t_c :: vec
  t_p :: vec
  t_normal :: vec
  t_path :: "vec list"
  t_grid :: "cell list list"

text \<open>The body of \<open>for (s of segments)\<close>.\<close>

definition add_segment :: "trace \<Rightarrow> segment \<Rightarrow> trace" where
  "add_segment st s =
     (let (sx0, sy0) = seg_start s;
          (cx, cy) = t_c st;
          sx = sx0 + cx + Fin 0.5;
          sy = sy0 + cy + Fin 0.5;
          pos = (sx, sy)
      in st\<lparr>t_s := pos, t_path := t_path st @ [pos], t_d := seg_direction s,
             interactionCount := interactionCount st + 1\<rparr>)"

text \<open>
  One pass through the body of the \<open>while\<close> loop. \<open>Inl\<close> leaves the loop, by an
  exception (\<open>Inl TypeError\<close>: the cell read is \<open>undefined\<close>) or by \<open>break\<close>;
  \<open>Inr\<close> goes on to the next test of the loop condition.
\<close>

definition trackStep :: "jsnum \<Rightarrow> jsnum \<Rightarrow> string option \<Rightarrow> trace \<Rightarrow> (error + trace) + trace" where
  "trackStep gridWidth gridHeight color st =
     (let (cx, cy) = t_c st;
          (x, y) = t_p st
      in case array_get (t_grid st) cy of
           None \<Rightarrow> Inl (Inl TypeError)
         | Some row \<Rightarrow>
             (case array_get row cx of
                None \<Rightarrow> Inl (Inl TypeError)
              | Some cell \<Rightarrow>
                  let ((segments, terminate), cell') =
                        interact cell (x - cx - Fin 0.5, y - cy - Fin 0.5) (t_d st) (t_normal st) color;
                      st1 = st\<lparr>t_grid := set_cell (t_grid st) cy cx cell'\<rparr>;
                      st2 = foldl add_segment st1 segments
                  in if terminate then Inl (Inr st2)
                     else
                       let (sx, sy) = t_s st2;
                           (dx, dy) = t_d st2;
                           t_vertical =
                             (if strict_neq dx (Fin 0)
                              then ((if Fin 0 < dx then cx + Fin 1 else cx) - sx) / dx
                              else PInf);
                           t_horizontal =
                             (if strict_neq dy (Fin 0)
                              then ((if Fin 0 < dy then cy + Fin 1 else cy) - sy) / dy
                              else PInf);
                           isVerticalHit = (t_vertical < t_horizontal);
                           t = (if isVerticalHit then t_vertical else t_horizontal);
                           cx' = (if isVerticalHit then cx + Math_sign dx else cx);
                           cy' = (if isVerticalHit then cy else cy + Math_sign dy);
                           x' = sx + dx * t;
                           y' = sy + dy * t;
                           normal' = (if isVerticalHit then (- Math_sign dx, Fin 0)
                                      else (Fin 0, - Math_sign dy));
                           st3 = st2\<lparr>t_c := (cx', cy'), t_p := (x', y'), t_normal := normal'\<rparr>
                       in if cx' < Fin 0 \<or> gridWidth \<le> cx' \<or> cy' < Fin 0 \<or> gridHeight \<le> cy'
                          then Inl (Inr (st3\<lparr>t_path := t_path st3 @ [(x', y')]\<rparr>))
                          else Inr st3))"

text \<open>
  The \<open>while\<close> loop for one beam. The loop has no bound of its own on the passes that
  add no segment, so it is a partial function: \<open>None\<close> is a loop that never ends.
\<close>

partial_function (option) trackLoop ::
  "jsnum \<Rightarrow> jsnum \<Rightarrow> string option \<Rightarrow> trace \<Rightarrow> (error + trace) option" where
  "trackLoop gridWidth gridHeight color st =
     (if interactionCount st < MAX_INTERACTIONS then
        (case trackStep gridWidth gridHeight color st of
           Inl r \<Rightarrow> Some r
         | Inr st' \<Rightarrow> trackLoop gridWidth gridHeight color st')
      else Some (Inr st))"

text \<open>The variables at the start of the \<open>while\<close> loop for a beam.\<close>

definition init_trace :: "cell list list \<Rightarrow> beam \<Rightarrow> trace" where
  "init_trace grid b =
     \<lparr>interactionCount = 0, t_s = beam_start b, t_d = beam_direction b, t_c = beam_cell b,
      t_p = beam_start b, t_normal = (Fin 0, Fin 1), t_path = [beam_start b], t_grid = grid\<rparr>"

definition trackBeam :: "jsnum \<Rightarrow> jsnum \<Rightarrow> cell list list \<Rightarrow> beam \<Rightarrow> (error + trace) option" where
  "trackBeam gridWidth gridHeight grid b =
     trackLoop gridWidth gridHeight (beam_color b) (init_trace grid b)"

text \<open>The \<open>for\<close> loop over the beams; the grid, with its target flags, is shared.\<close>

fun trackBeams ::
  "jsnum \<Rightarrow> jsnum \<Rightarrow> cell list list \<Rightarrow> beam list \<Rightarrow> (error + cell list list \<times> beam list) option" where
  "trackBeams gridWidth gridHeight grid [] = Some (Inr (grid, []))"
| "trackBeams gridWidth gridHeight grid (b # bs) =
     (case trackBeam gridWidth gridHeight grid b of
        None \<Rightarrow> None
      | Some (Inl e) \<Rightarrow> Some (Inl e)
      | Some (Inr st) \<Rightarrow>
          (case trackBeams gridWidth gridHeight (t_grid st) bs of
             None \<Rightarrow> None
           | Some (Inl e) \<Rightarrow> Some (Inl e)
           | Some (Inr (grid', bs')) \<Rightarrow> Some (Inr (grid', b\<lparr>beam_path := t_path st\<rparr> # bs'))))"

text \<open>\<open>grid[0].length\<close> throws when the grid has no row.\<close>

definition trackRays :: "cell list list \<Rightarrow> beam list \<Rightarrow> (error + cell list list \<times> beam list) option" where
  "trackRays grid beams =
     (case grid of
        [] \<Rightarrow> Some (Inl TypeError)
      | row0 # _ \<Rightarrow>
          trackBeams (Fin (real (length row0))) (Fin (real (length grid))) grid beams)"

section \<open>Renderer\<close>

text \<open>
  \<open>Renderer._drawBeams\<close> replaces a falsy colour of a traced beam by \<open>"yellow"\<close>
  before it picks the stroke colour.
\<close>

definition drawBeams_color :: "string option \<Rightarrow> string" where
  "drawBeams_color color =
     (case color of None \<Rightarrow> ''yellow'' | Some c \<Rightarrow> if c \<noteq> [] then c else ''yellow'')"

section \<open>Level loading and the game loop\<close>

text \<open>A cell of the level data: \<open>{type, color?, rotation?}\<close>.\<close>

record cellData =
  cd_type :: string
  cd_color :: "string option"
  cd_rotation :: "jsnum option"

definition default_refractiveIndices :: "(string \<times> jsnum) list" where
  "default_refractiveIndices = [(''red'', Fin 1.5), (''yellow'', Fin 1.6), (''blue'', Fin 2)]"

text \<open>The function mapped over every cell by \<open>Game.parseGrid\<close>.\<close>

definition parseCell :: "cellData \<Rightarrow> cell" where
  "parseCell cd =
     (if cd_type cd = ''Empty'' then EmptyCell
      else if cd_type cd = ''Block'' then
        BlockCell (case cd_color cd of None \<Rightarrow> ''black''
                   | Some c \<Rightarrow> if c \<noteq> [] then c else ''black'')
      else if cd_type cd = ''GlassBlock'' then GlassBlockCell default_refractiveIndices
      else if cd_type cd = ''Target'' then TargetCell False
      else if cd_type cd = ''FixedMirror'' then FixedMirrorCell
      else if cd_type cd = ''RotatableMirror'' then
        RotatableMirrorCell
          (case cd_rotation cd of
             None \<Rightarrow> Fin 1 / Fin 4 * Math_PI
           | Some r \<Rightarrow> if truthy r then r / Fin 180 * Math_PI else Fin 1 / Fin 4 * Math_PI)
      else if cd_type cd = ''Cross'' then
        CrossCell
          (case cd_rotation cd of
             None \<Rightarrow> Fin 0
           | Some r \<Rightarrow> if truthy r then r / Fin 180 * Math_PI else Fin 0)
          (Math_PI / Fin 16)
      else EmptyCell)"

definition parseGrid :: "cellData list list \<Rightarrow> cell list list" where
  "parseGrid gridData = map (map parseCell) gridData"

text \<open>
  The game state. A target is an object of the grid; it is identified by its position
  \<open>(row, column)\<close>, and its \<open>receive\<close> flag is read from the grid.
\<close>

record game =
  game_grid :: "cell list list"
  targetCells :: "(nat \<times> nat) list"
  isGameRunning :: bool
  isLevelClear :: bool
  gaugeValue :: jsnum
  lastTimestamp :: jsnum

definition GAUGE_FILL_RATE :: jsnum where
  "GAUGE_FILL_RATE = Fin 0.3"

definition GAUGE_DECAY_RATE :: jsnum where
  "GAUGE_DECAY_RATE = Fin 4"

definition findTargetCells :: "cell list list \<Rightarrow> (nat \<times> nat) list" where
  "findTargetCells grid =
     concat (map (\<lambda>(y, row).
        map (\<lambda>(x, c). (y, x))
          (filter (\<lambda>(x, c). case c of TargetCell r \<Rightarrow> True | _ \<Rightarrow> False)
             (enumerate 0 row)))
       (enumerate 0 grid))"

definition target_receive :: "cell list list \<Rightarrow> nat \<times> nat \<Rightarrow> bool" where
  "target_receive grid t =
     (if fst t < length grid \<and> snd t < length (grid ! fst t)
      then (case grid ! fst t ! snd t of TargetCell r \<Rightarrow> r | _ \<Rightarrow> False)
      else False)"

definition checkWinCondition :: "game \<Rightarrow> bool" where
  "checkWinCondition g =
     (if length (targetCells g) = 0 then False
      else
        let hitTargets = set (filter (target_receive (game_grid g)) (targetCells g))
        in list_all (\<lambda>target. target \<in> hitTargets) (targetCells g))"

text \<open>
  The state update of \<open>Game.gameLoop\<close> for one frame at \<open>timestamp\<close>: the time step,
  the gauge, and the flags set by \<open>handleLevelClear\<close>. The call of
  \<open>updateAndRender\<close> between them (tracing and drawing) does not assign
  \<open>gaugeValue\<close> and is not part of this function.
\<close>

definition gameLoop :: "game \<Rightarrow> jsnum \<Rightarrow> game" where
  "gameLoop g timestamp =
     (if \<not> isGameRunning g then g
      else
        let deltaTime = timestamp - lastTimestamp g;
            g1 = g\<lparr>lastTimestamp := timestamp\<rparr>;
            allTargetsHit = checkWinCondition g1;
            g2 = (if allTargetsHit
                  then g1\<lparr>gaugeValue :=
                         Math_min (gaugeValue g1 + GAUGE_FILL_RATE * (deltaTime / Fin 1000)) (Fin 1)\<rparr>
                  else g1\<lparr>gaugeValue :=
                         Math_max (Fin 0) (gaugeValue g1 - GAUGE_DECAY_RATE * (deltaTime / Fin 1000))\<rparr>)
        in if Fin 1 \<le> gaugeValue g2 \<and> \<not> isLevelClear g2
           then g2\<lparr>isLevelClear := True, isGameRunning := False\<rparr>
           else g2)"

section \<open>Well-formed inputs of the tracer\<close>

text \<open>
  A grid is well formed for tracing when every refractive index of its glass blocks is a
  finite number (none of \<open>Infinity\<close>, \<open>-Infinity\<close>, \<open>NaN\<close>) other than 0, as are
  those of the blocks that \<open>parseGrid\<close> builds.
\<close>

fun finite_nonzero :: "jsnum \<Rightarrow> bool" where
  "finite_nonzero (Fin a) = (a \<noteq> 0)"
| "finite_nonzero _ = False"

fun cell_ok :: "cell \<Rightarrow> bool" where
  "cell_ok (GlassBlockCell ri) = list_all (\<lambda>kv. finite_nonzero (snd kv)) ri"
| "cell_ok _ = True"

definition grid_ok :: "cell list list \<Rightarrow> bool" where
  "grid_ok grid = list_all (list_all cell_ok) grid"

section \<open>Invariants of the tracer\<close>

text \<open>
  The invariant of the loop of the glass block: the direction is finite, and the
  position is finite unless the direction is zero.
\<close>

definition glass_inv :: "vec \<Rightarrow> vec \<Rightarrow> bool" where
  "glass_inv pos dir = (\<exists>a b. dir = (Fin a, Fin b) \<and> ((a = 0 \<and> b = 0) \<or> (\<exists>px py. pos = (Fin px, Fin py))))"

text \<open>
  A normal as the tracer computes it is finite and either a unit vector or zero; a segment
  is good when its direction is finite and not zero and its start is finite.
\<close>

fun is_glass :: "cell \<Rightarrow> bool" where
  "is_glass (GlassBlockCell ri) = True"
| "is_glass _ = False"

definition axis_vec :: "vec \<Rightarrow> bool" where
  "axis_vec n = (\<exists>a b. n = (Fin a, Fin b) \<and> (a * a + b * b = 1 \<or> (a = 0 \<and> b = 0)))"

definition good_seg :: "segment \<Rightarrow> bool" where
  "good_seg l = (\<exists>ex ey fx fy. seg_direction l = (Fin ex, Fin ey) \<and> (ex \<noteq> 0 \<or> ey \<noteq> 0)
                   \<and> seg_start l = (Fin fx, Fin fy))"

text \<open>
  The read \<open>grid[cy][cx]\<close>, and the second half of the body of the \<open>while\<close> loop
  (from \<open>t_vertical\<close> on) as a function of the state after the segments are added;
  \<open>trackStep\<close> is shown below to be composed of them.
\<close>

definition cell_at :: "cell list list \<Rightarrow> vec \<Rightarrow> cell option" where
  "cell_at grid c = (case array_get grid (snd c) of None \<Rightarrow> None | Some row \<Rightarrow> array_get row (fst c))"

definition advance :: "jsnum \<Rightarrow> jsnum \<Rightarrow> trace \<Rightarrow> (error + trace) + trace" where
  "advance gridWidth gridHeight st2 =
     (let (cx, cy) = t_c st2;
          (sx, sy) = t_s st2;
          (dx, dy) = t_d st2;
          t_vertical =
            (if strict_neq dx (Fin 0)
             then ((if Fin 0 < dx then cx + Fin 1 else cx) - sx) / dx
             else PInf);
          t_horizontal =
            (if strict_neq dy (Fin 0)
             then ((if Fin 0 < dy then cy + Fin 1 else cy) - sy) / dy
             else PInf);
          isVerticalHit = (t_vertical < t_horizontal);
          t = (if isVerticalHit then t_vertical else t_horizontal);
          cx' = (if isVerticalHit then cx + Math_sign dx else cx);
          cy' = (if isVerticalHit then cy else cy + Math_sign dy);
          x' = sx + dx * t;
          y' = sy + dy * t;
          normal' = (if isVerticalHit then (- Math_sign dx, Fin 0)
                     else (Fin 0, - Math_sign dy));
          st3 = st2\<lparr>t_c := (cx', cy'), t_p := (x', y'), t_normal := normal'\<rparr>
      in if cx' < Fin 0 \<or> gridWidth \<le> cx' \<or> cy' < Fin 0 \<or> gridHeight \<le> cy'
         then Inl (Inr (st3\<lparr>t_path := t_path st3 @ [(x', y')]\<rparr>))
         else Inr st3)"

text \<open>
  The number of grid lines that the ray can still cross in its present direction before
  it leaves a grid of width \<open>w\<close> and height \<open>h\<close>; it decreases in every pass of the
  loop that adds no segment.
\<close>

fun the_real :: "jsnum \<Rightarrow> real" where
  "the_real (Fin a) = a"
| "the_real _ = 0"

definition pot :: "real \<Rightarrow> real \<Rightarrow> trace \<Rightarrow> nat" where
  "pot w h st =
     (let dx = the_real (fst (t_d st)); dy = the_real (snd (t_d st));
          cx = the_real (fst (t_c st)); cy = the_real (snd (t_c st))
      in nat \<lfloor>(if 0 < dx then w - cx else if dx < 0 then cx + 1 else 0)
              + (if 0 < dy then h - cy else if dy < 0 then cy + 1 else 0)\<rfloor>)"

text \<open>
  The invariant of the \<open>while\<close> loop: the direction is finite; either it is not zero and
  the positions are finite, or it is zero, which only a glass block can produce, and the
  ray stays in that glass block, which adds segments in every pass.
\<close>

definition trace_inv :: "trace \<Rightarrow> bool" where
  "trace_inv st =
     (grid_ok (t_grid st) \<and> axis_vec (t_normal st) \<and>
      (\<exists>dx dy. t_d st = (Fin dx, Fin dy) \<and>
         ((dx = 0 \<and> dy = 0 \<and> t_normal st = (Fin 0, Fin 0)
             \<and> (\<forall>c. cell_at (t_grid st) (t_c st) = Some c \<longrightarrow> is_glass c))
          \<or> ((dx \<noteq> 0 \<or> dy \<noteq> 0) \<and> (\<exists>sx sy. t_s st = (Fin sx, Fin sy))
               \<and> (\<exists>x y. t_p st = (Fin x, Fin y))))))"

text \<open>
  A grid is rectangular with width \<open>w\<close> and height \<open>h\<close> when it has \<open>h\<close> rows of
  length \<open>w\<close> each; it knows a colour when every glass block has a refractive index for
  it. The ray is in the grid when, moreover, its current cell is a cell of the grid.
\<close>

definition rect_grid :: "real \<Rightarrow> real \<Rightarrow> cell list list \<Rightarrow> bool" where
  "rect_grid w h grid = (h = real (length grid) \<and> list_all (\<lambda>row. real (length row) = w) grid)"

fun cell_knows :: "string option \<Rightarrow> cell \<Rightarrow> bool" where
  "cell_knows color (GlassBlockCell ri) = (map_of ri (property_key color) \<noteq> None)"
| "cell_knows color _ = True"

definition grid_knows :: "string option \<Rightarrow> cell list list \<Rightarrow> bool" where
  "grid_knows color grid = list_all (list_all (cell_knows color)) grid"

definition in_grid :: "real \<Rightarrow> real \<Rightarrow> string option \<Rightarrow> trace \<Rightarrow> bool" where
  "in_grid w h color st =
     (rect_grid w h (t_grid st) \<and> grid_knows color (t_grid st)
      \<and> cell_at (t_grid st) (t_c st) \<noteq> None)"

text \<open>
  A grid of one column with a glass block between two fixed mirrors, and a red beam that
  starts in the middle of the glass block and goes up.
\<close>

definition column_grid :: "cell list list" where
  "column_grid = [[FixedMirrorCell], [GlassBlockCell default_refractiveIndices], [FixedMirrorCell]]"

definition column_beam :: beam where
  "column_beam = \<lparr>beam_start = (Fin 0.5, Fin 1.5), beam_direction = (Fin 0, Fin (- 1)),
       beam_cell = (Fin 0, Fin 1), beam_color = Some ''red'', beam_path = []\<rparr>"

text \<open>The state when the beam enters row \<open>cy\<close> at height \<open>y\<close> with vertical direction \<open>dy\<close>.\<close>

definition column_state :: "nat \<Rightarrow> real \<Rightarrow> real \<Rightarrow> real \<Rightarrow> vec list \<Rightarrow> trace" where
  "column_state k cy y dy path =
     \<lparr>interactionCount = k, t_s = (Fin (1 / 2), Fin y), t_d = (Fin 0, Fin dy), t_c = (Fin 0, Fin cy),
      t_p = (Fin (1 / 2), Fin y), t_normal = (Fin 0, Fin (- dy)), t_path = path, t_grid = column_grid\<rparr>"

section \<open>Double-precision arithmetic\<close>

text \<open>
  The numbers of the program are IEEE 754 binary64 values. \<open>two_p k\<close> is \<open>2\<^sup>k\<close>. A
  real is a double when it is \<open>m * 2\<^sup>k\<close> with \<open>|m| < 2\<^sup>5\<^sup>3\<close> and
  \<open>-1074 \<le> k \<le> 971\<close>; the largest one is \<open>MAX_VALUE = 2\<^sup>1\<^sup>0\<^sup>2\<^sup>4 - 2\<^sup>9\<^sup>7\<^sup>1\<close>.
\<close>

definition two_p :: "int \<Rightarrow> real" where
  "two_p k = 2 powr of_int k"

definition is_double :: "real \<Rightarrow> bool" where
  "is_double x = (\<exists>m k :: int. x = of_int m * two_p k \<and> \<bar>m\<bar> < 2 ^ 53 \<and> - 1074 \<le> k \<and> k \<le> 971)"

definition MAX_VALUE :: real where
  "MAX_VALUE = two_p 1024 - two_p 971"

text \<open>
  Rounding to nearest, ties to even. \<open>binade x\<close> is the exponent of the binade of \<open>x\<close>
  (at least \<open>-1022\<close>, where the subnormal numbers begin), so that the doubles around
  \<open>x\<close> are the multiples of \<open>2\<close> to the power \<open>binade x - 52\<close>. A result of magnitude
  \<open>2\<^sup>1\<^sup>0\<^sup>2\<^sup>4\<close> or more is an overflow and gives an infinity. The sign of zero is not
  modelled.
\<close>

definition round_even :: "real \<Rightarrow> int" where
  "round_even m =
     (let f = \<lfloor>m\<rfloor>; r = m - of_int f
      in if r < 1 / 2 then f else if 1 / 2 < r then f + 1 else if even f then f else f + 1)"

definition binade :: "real \<Rightarrow> int" where
  "binade x = max \<lfloor>log 2 \<bar>x\<bar>\<rfloor> (- 1022)"

definition rnd :: "real \<Rightarrow> jsnum" where
  "rnd x =
     (if x = 0 then Fin 0
      else
        let q = two_p (binade x - 52);
            y = of_int (round_even (x / q)) * q
        in if two_p 1024 \<le> \<bar>y\<bar> then (if 0 < x then PInf else NInf) else Fin y)"

text \<open>
  An arithmetic operation of the program is the exact operation followed by rounding;
  the special values are not rounded.
\<close>

fun dbl :: "jsnum \<Rightarrow> jsnum" where
  "dbl (Fin x) = rnd x"
| "dbl PInf = PInf"
| "dbl NInf = NInf"
| "dbl NaN = NaN"

definition add64 :: "jsnum \<Rightarrow> jsnum \<Rightarrow> jsnum" where
  "add64 a b = dbl (a + b)"

definition sub64 :: "jsnum \<Rightarrow> jsnum \<Rightarrow> jsnum" where
  "sub64 a b = dbl (a - b)"

definition mul64 :: "jsnum \<Rightarrow> jsnum \<Rightarrow> jsnum" where
  "mul64 a b = dbl (a * b)"

definition div64 :: "jsnum \<Rightarrow> jsnum \<Rightarrow> jsnum" where
  "div64 a b = dbl (a / b)"

text \<open>\<open>dot\<close>, \<open>reflect\<close> and \<open>FixedMirrorCell.interact\<close> with the operations of the program.\<close>

definition dot64 :: "vec \<Rightarrow> vec \<Rightarrow> jsnum" where
  "dot64 v1 v2 = add64 (mul64 (fst v1) (fst v2)) (mul64 (snd v1) (snd v2))"

definition reflect64 :: "vec \<Rightarrow> vec \<Rightarrow> vec" where
  "reflect64 incidentVec normalVec =
     (let d = dot64 incidentVec normalVec
      in (sub64 (fst incidentVec) (mul64 (mul64 (Fin 2) d) (fst normalVec)),
          sub64 (snd incidentVec) (mul64 (mul64 (Fin 2) d) (snd normalVec))))"

definition FixedMirrorCell_interact64 :: "vec \<Rightarrow> vec \<Rightarrow> vec \<Rightarrow> segment list \<times> bool" where
  "FixedMirrorCell_interact64 start direction nrm =
     (let dir = reflect64 direction nrm
      in ([\<lparr>seg_start = start, seg_direction = dir\<rparr>], False))"

section \<open>The tracer in double-precision arithmetic\<close>

text \<open>
  The cells whose \<open>interact\<close> computes with \<open>+\<close>, \<open>-\<close>, \<open>*\<close> and \<open>/\<close> only, or not
  at all: the empty cell, the block, the target and the fixed mirror. The other classes
  call \<open>Math.sqrt\<close>, \<open>Math.sin\<close> and \<open>Math.cos\<close>, whose results the language leaves
  to the implementation; their \<open>interact\<close> is the parameter \<open>rest\<close> of the tracer.
\<close>

fun simple_cell :: "cell \<Rightarrow> bool" where
  "simple_cell EmptyCell = True"
| "simple_cell (BlockCell c) = True"
| "simple_cell (TargetCell r) = True"
| "simple_cell FixedMirrorCell = True"
| "simple_cell _ = False"

fun interact64 ::
  "(cell \<Rightarrow> vec \<Rightarrow> vec \<Rightarrow> vec \<Rightarrow> string option \<Rightarrow> (segment list \<times> bool) \<times> cell)
   \<Rightarrow> cell \<Rightarrow> vec \<Rightarrow> vec \<Rightarrow> vec \<Rightarrow> string option \<Rightarrow> (segment list \<times> bool) \<times> cell" where
  "interact64 rest EmptyCell start direction normal color = (BaseCell_interact, EmptyCell)"
| "interact64 rest (BlockCell c) start direction normal color =
     (BlockCell_interact c start direction normal color, BlockCell c)"
| "interact64 rest (TargetCell r) start direction normal color =
     (TargetCell_interact start direction, TargetCell True)"
| "interact64 rest FixedMirrorCell start direction normal color =
     (FixedMirrorCell_interact64 start direction normal, FixedMirrorCell)"
| "interact64 rest c start direction normal color = rest c start direction normal color"

text \<open>The body of \<open>for (s of segments)\<close>, one pass of the \<open>while\<close> loop, and the loop.\<close>

definition add_segment64 :: "trace \<Rightarrow> segment \<Rightarrow> trace" where
  "add_segment64 st s =
     (let (sx0, sy0) = seg_start s;
          (cx, cy) = t_c st;
          sx = add64 (add64 sx0 cx) (Fin 0.5);
          sy = add64 (add64 sy0 cy) (Fin 0.5);
          pos = (sx, sy)
      in st\<lparr>t_s := pos, t_path := t_path st @ [pos], t_d := seg_direction s,
             interactionCount := interactionCount st + 1\<rparr>)"

definition trackStep64 ::
  "(cell \<Rightarrow> vec \<Rightarrow> vec \<Rightarrow> vec \<Rightarrow> string option \<Rightarrow> (segment list \<times> bool) \<times> cell)
   \<Rightarrow> jsnum \<Rightarrow> jsnum \<Rightarrow> string option \<Rightarrow> trace \<Rightarrow> (error + trace) + trace" where
  "trackStep64 rest gridWidth gridHeight color st =
     (let (cx, cy) = t_c st;
          (x, y) = t_p st
      in case array_get (t_grid st) cy of
           None \<Rightarrow> Inl (Inl TypeError)
         | Some row \<Rightarrow>
             (case array_get row cx of
                None \<Rightarrow> Inl (Inl TypeError)
              | Some cell \<Rightarrow>
                  let ((segments, terminate), cell') =
                        interact64 rest cell
                          (sub64 (sub64 x cx) (Fin 0.5), sub64 (sub64 y cy) (Fin 0.5))
                          (t_d st) (t_normal st) color;
                      st1 = st\<lparr>t_grid := set_cell (t_grid st) cy cx cell'\<rparr>;
                      st2 = foldl add_segment64 st1 segments
                  in if terminate then Inl (Inr st2)
                     else
                       let (sx, sy) = t_s st2;
                           (dx, dy) = t_d st2;
                           t_vertical =
                             (if strict_neq dx (Fin 0)
                              then div64 (sub64 (if Fin 0 < dx then add64 cx (Fin 1) else cx) sx) dx
                              else PInf);
                           t_horizontal =
                             (if strict_neq dy (Fin 0)
                              then div64 (sub64 (if Fin 0 < dy then add64 cy (Fin 1) else cy) sy) dy
                              else PInf);
                           isVerticalHit = (t_vertical < t_horizontal);
                           t = (if isVerticalHit then t_vertical else t_horizontal);
                           cx' = (if isVerticalHit then add64 cx (Math_sign dx) else cx);
                           cy' = (if isVerticalHit then cy else add64 cy (Math_sign dy));
                           x' = add64 sx (mul64 dx t);
                           y' = add64 sy (mul64 dy t);
                           normal' = (if isVerticalHit then (- Math_sign dx, Fin 0)
                                      else (Fin 0, - Math_sign dy));
                           st3 = st2\<lparr>t_c := (cx', cy'), t_p := (x', y'), t_normal := normal'\<rparr>
                       in if cx' < Fin 0 \<or> gridWidth \<le> cx' \<or> cy' < Fin 0 \<or> gridHeight \<le> cy'
                          then Inl (Inr (st3\<lparr>t_path := t_path st3 @ [(x', y')]\<rparr>))
                          else Inr st3))"

partial_function (option) trackLoop64 ::
  "(cell \<Rightarrow> vec \<Rightarrow> vec \<Rightarrow> vec \<Rightarrow> string option \<Rightarrow> (segment list \<times> bool) \<times> cell)
   \<Rightarrow> jsnum \<Rightarrow> jsnum \<Rightarrow> string option \<Rightarrow> trace \<Rightarrow> (error + trace) option" where
  "trackLoop64 rest gridWidth gridHeight color st =
     (if interactionCount st < MAX_INTERACTIONS then
        (case trackStep64 rest gridWidth gridHeight color st of
           Inl r \<Rightarrow> Some r
         | Inr st' \<Rightarrow> trackLoop64 rest gridWidth gridHeight color st')
      else Some (Inr st))"

definition trackBeam64 ::
  "(cell \<Rightarrow> vec \<Rightarrow> vec \<Rightarrow> vec \<Rightarrow> string option \<Rightarrow> (segment list \<times> bool) \<times> cell)
   \<Rightarrow> jsnum \<Rightarrow> jsnum \<Rightarrow> cell list list \<Rightarrow> beam \<Rightarrow> (error + trace) option" where
  "trackBeam64 rest gridWidth gridHeight grid b =
     trackLoop64 rest gridWidth gridHeight (beam_color b) (init_trace grid b)"

text \<open>
  A grid of simple cells, and the bound of the language on the length of an array.
\<close>

definition simple_grid :: "cell list list \<Rightarrow> bool" where
  "simple_grid grid = list_all (list_all simple_cell) grid"

definition small_grid :: "cell list list \<Rightarrow> bool" where
  "small_grid grid = (length grid < 2 ^ 32 \<and> list_all (\<lambda>row. length row < 2 ^ 32) grid)"

text \<open>
  The second half of the body of the loop (from \<open>t_vertical\<close> on); \<open>trackStep64\<close> is
  shown below to be composed of the cell read, \<open>interact64\<close> and \<open>advance64\<close>.
\<close>

definition advance64 :: "jsnum \<Rightarrow> jsnum \<Rightarrow> trace \<Rightarrow> (error + trace) + trace" where
  "advance64 gridWidth gridHeight st2 =
     (let (cx, cy) = t_c st2;
          (sx, sy) = t_s st2;
          (dx, dy) = t_d st2;
          t_vertical =
            (if strict_neq dx (Fin 0)
             then div64 (sub64 (if Fin 0 < dx then add64 cx (Fin 1) else cx) sx) dx
             else PInf);
          t_horizontal =
            (if strict_neq dy (Fin 0)
             then div64 (sub64 (if Fin 0 < dy then add64 cy (Fin 1) else cy) sy) dy
             else PInf);
          isVerticalHit = (t_vertical < t_horizontal);
          t = (if isVerticalHit then t_vertical else t_horizontal);
          cx' = (if isVerticalHit then add64 cx (Math_sign dx) else cx);
          cy' = (if isVerticalHit then cy else add64 cy (Math_sign dy));
          x' = add64 sx (mul64 dx t);
          y' = add64 sy (mul64 dy t);
          normal' = (if isVerticalHit then (- Math_sign dx, Fin 0)
                     else (Fin 0, - Math_sign dy));
          st3 = st2\<lparr>t_c := (cx', cy'), t_p := (x', y'), t_normal := normal'\<rparr>
      in if cx' < Fin 0 \<or> gridWidth \<le> cx' \<or> cy' < Fin 0 \<or> gridHeight \<le> cy'
         then Inl (Inr (st3\<lparr>t_path := t_path st3 @ [(x', y')]\<rparr>))
         else Inr st3)"

text \<open>
  The invariant of the loop on a grid of simple cells for a beam along an axis: the
  direction and the normal are axis unit vectors, and the positions are finite.
\<close>

definition axis_dir :: "vec \<Rightarrow> bool" where
  "axis_dir d = (d = (Fin 1, Fin 0) \<or> d = (Fin (- 1), Fin 0) \<or> d = (Fin 0, Fin 1) \<or> d = (Fin 0, Fin (- 1)))"

definition bounded_pos :: "vec \<Rightarrow> bool" where
  "bounded_pos p = (\<exists>x y. p = (Fin x, Fin y) \<and> \<bar>x\<bar> \<le> MAX_VALUE \<and> \<bar>y\<bar> \<le> MAX_VALUE)"

definition trace_inv64 :: "trace \<Rightarrow> bool" where
  "trace_inv64 st =
     (simple_grid (t_grid st) \<and> small_grid (t_grid st) \<and> axis_dir (t_d st)
      \<and> axis_dir (t_normal st) \<and> bounded_pos (t_s st) \<and> bounded_pos (t_p st))"

text \<open>
  A grid of one empty cell with a beam whose direction is \<open>(2\<^sup>-\<^sup>1\<^sup>0\<^sup>7\<^sup>4, 0)\<close>, the
  smallest positive double; the state of the loop after its first pass.
\<close>

definition min_double :: real where
  "min_double = two_p (- 1074)"

definition one_cell_grid :: "cell list list" where
  "one_cell_grid = [[EmptyCell]]"

definition slow_beam :: beam where
  "slow_beam = \<lparr>beam_start = (Fin (1 / 2), Fin (1 / 2)), beam_direction = (Fin min_double, Fin 0),
       beam_cell = (Fin 0, Fin 0), beam_color = Some ''yellow'', beam_path = []\<rparr>"

definition stuck_state :: trace where
  "stuck_state =
     \<lparr>interactionCount = 0, t_s = (Fin (1 / 2), Fin (1 / 2)), t_d = (Fin min_double, Fin 0),
      t_c = (Fin 0, Fin 0), t_p = (PInf, NaN), t_normal = (Fin 0, Fin 0),
      t_path = [(Fin (1 / 2), Fin (1 / 2))], t_grid = one_cell_grid\<rparr>"

text \<open>An empty cell between two fixed mirrors that face each other, and a beam between them.\<close>

definition facing_mirrors :: "cell list list" where
  "facing_mirrors = [[FixedMirrorCell, EmptyCell, FixedMirrorCell]]"

definition bouncing_beam :: beam where
  "bouncing_beam = \<lparr>beam_start = (Fin (3 / 2), Fin (1 / 2)), beam_direction = (Fin 1, Fin 0),
       beam_cell = (Fin 1, Fin 0), beam_color = Some ''yellow'', beam_path = []\<rparr>"

section \<open>Arithmetic on finite numbers\<close>

lemma Fin_minus [simp]: "Fin a - Fin b = Fin (a - b)"
  by (simp add: minus_jsnum_def)

lemma minus_special [simp]:
  "PInf - Fin a = PInf" "NInf - Fin a = NInf" "Fin a - PInf = NInf" "Fin a - NInf = PInf"
  "PInf - PInf = NaN" "NInf - NInf = NaN" "PInf - NInf = PInf" "NInf - PInf = NInf"
  "NaN - x = NaN" "x - NaN = NaN"
  by (cases x; simp add: minus_jsnum_def)+

lemma NaN_absorbs [simp]:
  "NaN + x = NaN" "x + NaN = NaN" "NaN * x = NaN" "x * NaN = NaN" "NaN / x = NaN" "x / NaN = NaN"
  "\<not> NaN < x" "\<not> x < NaN" "\<not> NaN \<le> x" "\<not> x \<le> NaN"
  by (cases x; simp)+

lemma not_between_same [simp]: "(Fin a < h \<and> h < Fin a) = False"
  by (cases h) simp_all

lemma dot_Fin: "dot (Fin a, Fin b) (Fin c, Fin d) = Fin (a * c + b * d)"
  by (simp add: dot_def)

lemma reflect_Fin:
  "reflect (Fin dx, Fin dy) (Fin nx, Fin ny) =
     (Fin (dx - 2 * (dx * nx + dy * ny) * nx), Fin (dy - 2 * (dx * nx + dy * ny) * ny))"
  by (simp add: reflect_def dot_def Let_def)

lemma refract_Fin:
  assumes "n2 \<noteq> 0"
  shows "refract (Fin ix, Fin iy) (Fin nx, Fin ny) (Fin n1) (Fin n2) =
    (let r = n1 / n2; c = - (nx * ix + ny * iy); s = r * r * (1 - c * c)
     in if 1 < s then (reflect (Fin ix, Fin iy) (Fin nx, Fin ny), True)
        else ((Fin (r * ix + (r * c - sqrt (1 - s)) * nx),
               Fin (r * iy + (r * c - sqrt (1 - s)) * ny)), False))"
  using assms by (simp add: refract_def dot_Fin Let_def)

lemma sin_t2_Fin:
  assumes "n2 \<noteq> 0"
  shows "snd (refract (Fin ix, Fin iy) (Fin nx, Fin ny) (Fin n1) (Fin n2)) =
      (1 < n1 / n2 * (n1 / n2) * (1 - (nx * ix + ny * iy) * (nx * ix + ny * iy)))"
proof -
  have "(- (nx * ix + ny * iy)) * (- (nx * ix + ny * iy)) = (nx * ix + ny * iy) * (nx * ix + ny * iy)"
    by (rule minus_mult_minus)
  then show ?thesis
    by (simp only: refract_Fin[OF assms] Let_def split: if_split) simp
qed

lemma sq_ratio_less_one:
  fixes n1 n2 c :: real
  assumes "0 < n1" "n1 < n2"
  shows "n1 / n2 * (n1 / n2) * (1 - c * c) < 1"
proof -
  have r: "0 < n1 / n2" "n1 / n2 < 1" using assms by simp_all
  then have "n1 / n2 * (n1 / n2) < 1 * 1"
    by (intro mult_strict_mono) simp_all
  moreover have "n1 / n2 * (n1 / n2) * (1 - c * c) \<le> n1 / n2 * (n1 / n2) * 1"
    by (intro mult_left_mono) simp_all
  ultimately show ?thesis by simp
qed

section \<open>Rounding to double precision\<close>

lemma two_p_pos [simp]: "0 < two_p k"
  by (simp add: two_p_def)

lemma two_p_abs [simp]: "\<bar>two_p k\<bar> = two_p k"
  by (simp add: two_p_def)

lemma two_p_ge0 [simp]: "0 \<le> two_p k"
  by (simp add: two_p_def)

lemma two_p_neq0 [simp]: "two_p k \<noteq> 0"
  by (simp add: two_p_def)

lemma two_p_add: "two_p (j + k) = two_p j * two_p k"
  by (simp add: two_p_def powr_add)

lemma two_p_diff: "two_p (j - k) = two_p j / two_p k"
  by (simp add: two_p_def powr_diff)

lemma two_p_mono: "j \<le> k \<Longrightarrow> two_p j \<le> two_p k"
  by (simp add: two_p_def)

lemma two_p_less: "j < k \<Longrightarrow> two_p j < two_p k"
  by (simp add: two_p_def)

lemma two_p_nat: "0 \<le> k \<Longrightarrow> two_p k = of_int (2 ^ nat k)"
  by (simp add: two_p_def powr_int)

lemma two_p_0 [simp]: "two_p 0 = 1"
  by (simp add: two_p_def)

lemma round_even_int [simp]: "round_even (of_int n) = n"
  by (simp add: round_even_def)

lemma round_even_err: "\<bar>of_int (round_even m) - m\<bar> \<le> 1 / 2"
proof -
  have "of_int \<lfloor>m\<rfloor> \<le> m" "m < of_int \<lfloor>m\<rfloor> + 1" by linarith+
  then show ?thesis
    by (auto simp add: round_even_def Let_def)
qed

lemma binade_upper:
  assumes "x \<noteq> 0"
  shows "\<bar>x\<bar> < two_p (binade x + 1)"
proof -
  have "log 2 \<bar>x\<bar> < of_int (\<lfloor>log 2 \<bar>x\<bar>\<rfloor> + 1)" by linarith
  also have "\<dots> \<le> of_int (binade x + 1)" by (simp add: binade_def)
  finally have "2 powr log 2 \<bar>x\<bar> < 2 powr of_int (binade x + 1)" by simp
  then show ?thesis using assms by (simp add: two_p_def)
qed

lemma binade_lower:
  assumes "x \<noteq> 0" "- 1022 < binade x"
  shows "two_p (binade x) \<le> \<bar>x\<bar>"
proof -
  have "binade x = \<lfloor>log 2 \<bar>x\<bar>\<rfloor>" using assms(2) by (simp add: binade_def max_def split: if_splits)
  then have "of_int (binade x) \<le> log 2 \<bar>x\<bar>" by simp
  then have "2 powr of_int (binade x) \<le> 2 powr log 2 \<bar>x\<bar>" by simp
  then show ?thesis using assms(1) by (simp add: two_p_def)
qed

lemma binade_less:
  assumes "x \<noteq> 0" "\<bar>x\<bar> < two_p j" "- 1022 < j"
  shows "binade x < j"
proof -
  have "log 2 \<bar>x\<bar> < of_int j"
    using assms(1,2) by (simp add: log_less_iff two_p_def)
  then have "\<lfloor>log 2 \<bar>x\<bar>\<rfloor> < j" by linarith
  then show ?thesis using assms(3) by (simp add: binade_def)
qed

lemma binade_ge: "- 1022 \<le> binade x"
  by (simp add: binade_def)

lemma rnd_id:
  assumes "is_double x"
  shows "rnd x = Fin x"
proof (cases "x = 0")
  case True
  then show ?thesis by (simp add: rnd_def)
next
  case False
  from assms obtain m k :: int where x: "x = of_int m * two_p k"
    and m: "\<bar>m\<bar> < 2 ^ 53" and k: "- 1074 \<le> k" "k \<le> 971"
    unfolding is_double_def by blast
  define e where "e = binade x"
  have "\<bar>x\<bar> = of_int \<bar>m\<bar> * two_p k" by (simp add: x abs_mult)
  also have "\<dots> < of_int (2 ^ 53) * two_p k"
  proof -
    have "(of_int \<bar>m\<bar> :: real) < of_int (2 ^ 53)" using m by (simp only: of_int_less_iff)
    then show ?thesis by (simp only: mult_less_cancel_right_pos two_p_pos)
  qed
  also have "\<dots> = two_p (53 + k)"
    by (simp only: two_p_add two_p_nat[of 53]) simp
  finally have lt: "\<bar>x\<bar> < two_p (53 + k)" .
  have "binade x < 53 + k"
    by (rule binade_less[OF False lt]) (use k in simp)
  then have ek: "0 \<le> k - (e - 52)" by (simp add: e_def)
  have "x / two_p (e - 52) = of_int m * (two_p k / two_p (e - 52))"
    by (simp add: x)
  also have "two_p k / two_p (e - 52) = two_p (k - (e - 52))"
    by (simp only: two_p_diff)
  also have "\<dots> = of_int (2 ^ nat (k - (e - 52)))"
    by (rule two_p_nat[OF ek])
  finally have q: "x / two_p (e - 52) = of_int (m * 2 ^ nat (k - (e - 52)))"
    by simp
  have y: "of_int (round_even (x / two_p (e - 52))) * two_p (e - 52) = x"
  proof -
    have "of_int (round_even (x / two_p (e - 52))) * two_p (e - 52)
        = x / two_p (e - 52) * two_p (e - 52)"
      unfolding q round_even_int by (simp only: q[symmetric])
    also have "\<dots> = x" by simp
    finally show ?thesis .
  qed
  have "53 + k \<le> 1024" using k by simp
  from lt two_p_mono[OF this] have "\<bar>x\<bar> < two_p 1024" by linarith
  then show ?thesis
    using False y by (simp add: rnd_def Let_def e_def[symmetric])
qed

lemma is_double_int: "\<bar>n\<bar> < 2 ^ 53 \<Longrightarrow> is_double (of_int n)"
  unfolding is_double_def by (rule exI[of _ n], rule exI[of _ 0]) simp

lemma is_double_uminus: "is_double x \<Longrightarrow> is_double (- x)"
  unfolding is_double_def
  apply (elim exE conjE)
  subgoal for m k by (rule exI[of _ "- m"], rule exI[of _ k]) simp
  done


lemma two_p_Suc: "two_p (k + 1) = 2 * two_p k"
  by (simp add: two_p_def powr_add)

lemma two_p_1024: "two_p 1024 = 2 ^ 53 * two_p 971"
  using two_p_add[of 53 971] by (simp add: two_p_nat[of 53])

lemma two_p_1023: "two_p 1023 = 2 ^ 52 * two_p 971"
  using two_p_add[of 52 971] by (simp add: two_p_nat[of 52])

lemma two_p_970: "two_p 971 = 2 * two_p 970"
  using two_p_Suc[of 970] by simp

lemma rnd_finite:
  assumes "\<bar>x\<bar> < two_p 1024 - two_p 970"
  shows "\<exists>y. rnd x = Fin y \<and> \<bar>y - x\<bar> \<le> two_p 970 \<and> \<bar>y\<bar> \<le> MAX_VALUE"
proof (cases "x = 0")
  case True
  then show ?thesis by (simp add: rnd_def MAX_VALUE_def two_p_1024)
next
  case False
  define e where "e = binade x"
  define q where "q = two_p (e - 52)"
  define n where "n = round_even (x / q)"
  define y where "y = of_int n * q"
  have q0: "0 < q" by (simp add: q_def)
  have "\<bar>x\<bar> < two_p 1024" using assms two_p_pos[of 970] by linarith
  then have e: "e < 1024" unfolding e_def by (rule binade_less[OF False]) simp
  then have "e - 52 \<le> 971" by simp
  then have q971: "q \<le> two_p 971" unfolding q_def by (rule two_p_mono)
  have "\<bar>y - x\<bar> = \<bar>of_int n - x / q\<bar> * q"
  proof -
    have "y - x = (of_int n - x / q) * q" using q0 by (simp add: y_def field_simps)
    then show ?thesis using q0 by (simp add: abs_mult)
  qed
  also have "\<dots> \<le> 1 / 2 * q"
    using round_even_err[of "x / q"] q0 unfolding n_def by (intro mult_right_mono) simp_all
  finally have err: "\<bar>y - x\<bar> \<le> q / 2" by simp
  then have err970: "\<bar>y - x\<bar> \<le> two_p 970" using q971 two_p_970 by linarith
  have fin: "\<bar>y\<bar> < two_p 1024" using err970 assms by linarith
  have "\<bar>y\<bar> \<le> MAX_VALUE"
  proof (cases "e = 1023")
    case True
    then have q: "q = two_p 971" by (simp add: q_def)
    have "\<bar>y\<bar> = of_int \<bar>n\<bar> * q" using q0 by (simp add: y_def abs_mult)
    with fin have "of_int \<bar>n\<bar> * two_p 971 < 2 ^ 53 * two_p 971"
      by (simp add: q two_p_1024)
    then have "(of_int \<bar>n\<bar> :: real) < of_int (2 ^ 53)"
      by (simp only: mult_less_cancel_right_pos two_p_pos) simp
    then have "\<bar>n\<bar> < 2 ^ 53" by (simp only: of_int_less_iff)
    then have "\<bar>n\<bar> \<le> 2 ^ 53 - 1" by simp
    then have "(of_int \<bar>n\<bar> :: real) \<le> of_int (2 ^ 53 - 1)" by (simp only: of_int_le_iff)
    then have "of_int \<bar>n\<bar> * two_p 971 \<le> of_int (2 ^ 53 - 1) * two_p 971"
      by (intro mult_right_mono) simp_all
    then show ?thesis
      using \<open>\<bar>y\<bar> = of_int \<bar>n\<bar> * q\<close>
      by (simp add: q MAX_VALUE_def two_p_1024 algebra_simps)
  next
    case False
    with e have "e + 1 \<le> 1023" by simp
    then have "two_p (e + 1) \<le> two_p 1023" by (rule two_p_mono)
    with binade_upper[OF \<open>x \<noteq> 0\<close>] have "\<bar>x\<bar> < two_p 1023" by (simp add: e_def)
    with err970 have "\<bar>y\<bar> < two_p 1023 + two_p 970" by linarith
    then show ?thesis
      using two_p_pos[of 970]
      by (simp add: MAX_VALUE_def two_p_1024 two_p_1023 two_p_970)
  qed
  moreover have "rnd x = Fin y"
    using \<open>x \<noteq> 0\<close> fin
    by (simp add: rnd_def Let_def e_def[symmetric] q_def[symmetric] n_def[symmetric] y_def[symmetric])
  ultimately show ?thesis using err970 by blast
qed

lemma rnd_overflow:
  assumes "two_p 1024 \<le> x"
  shows "rnd x = PInf"
proof -
  have x0: "0 < x" using assms two_p_pos[of 1024] by linarith
  then have xn: "x \<noteq> 0" by simp
  define e where "e = binade x"
  define q where "q = two_p (e - 52)"
  define n where "n = round_even (x / q)"
  have q0: "0 < q" by (simp add: q_def)
  have "two_p 1024 < two_p (e + 1)"
    using assms binade_upper[OF xn] x0 by (simp add: e_def)
  then have e: "1024 \<le> e"
    by (metis two_p_mono not_le zle_add1_eq_le less_le_not_le)
  then have "- 1022 < binade x" by (simp add: e_def)
  from binade_lower[OF xn this] have "two_p e \<le> x" using x0 by (simp add: e_def)
  then have "two_p e / q \<le> x / q" using q0 by (simp add: divide_right_mono)
  moreover have "two_p e / q = 2 ^ 52"
    unfolding q_def two_p_diff[symmetric] by (simp add: two_p_nat)
  ultimately have "2 ^ 52 \<le> x / q" by simp
  moreover have "x / q - 1 / 2 \<le> of_int n"
    using round_even_err[of "x / q"] unfolding n_def by linarith
  ultimately have "(2 ^ 52 :: real) - 1 / 2 \<le> of_int n" by linarith
  then have "(of_int (2 ^ 52 - 1) :: real) < of_int n" by simp
  then have "(2 ^ 52 - 1 :: int) < n" by (simp only: of_int_less_iff)
  then have "(2 ^ 52 :: int) \<le> n" by simp
  then have "(of_int (2 ^ 52) :: real) \<le> of_int n" by (simp only: of_int_le_iff)
  then have "of_int (2 ^ 52) * q \<le> of_int n * q" using q0 by (intro mult_right_mono) simp_all
  moreover have "of_int (2 ^ 52) * q = two_p e"
    using two_p_add[of 52 "e - 52"] by (simp add: q_def two_p_nat[of 52])
  moreover have "two_p 1024 \<le> two_p e" using e by (rule two_p_mono)
  ultimately have "two_p 1024 \<le> \<bar>of_int n * q\<bar>" by linarith
  then show ?thesis
    using xn x0
    by (simp add: rnd_def Let_def e_def[symmetric] q_def[symmetric] n_def[symmetric])
qed

text \<open>The only unit vectors whose components are doubles are the four axis vectors.\<close>

lemma sum_squares_pow4:
  fixes a b :: int
  shows "a * a + b * b = 4 ^ j \<Longrightarrow> a = 0 \<or> b = 0"
proof (induction j arbitrary: a b)
  case 0
  then have "a * a + b * b = 1" by simp
  moreover have "0 \<le> a * a" "0 \<le> b * b" by simp_all
  ultimately have "a * a = 0 \<or> b * b = 0" by linarith
  then show ?case by simp
next
  case (Suc j)
  then have four: "a * a + b * b = 4 * 4 ^ j" by simp
  have ev: "even a \<and> even b"
  proof (rule ccontr)
    assume "\<not> (even a \<and> even b)"
    then consider "odd a" "odd b" | "odd a" "even b" | "even a" "odd b" by auto
    then show False
    proof cases
      case 1
      then obtain k l where "a = 2 * k + 1" "b = 2 * l + 1" by (auto elim!: oddE)
      then have "a * a + b * b = 4 * (k * k + k + l * l + l) + 2" by (simp add: algebra_simps)
      with four have "4 * (k * k + k + l * l + l) + 2 = 4 * (4 :: int) ^ j" by simp
      then show False by presburger
    next
      case 2
      then obtain k l where "a = 2 * k + 1" "b = 2 * l" by (auto elim!: oddE evenE)
      then have "a * a + b * b = 4 * (k * k + k + l * l) + 1" by (simp add: algebra_simps)
      with four have "4 * (k * k + k + l * l) + 1 = 4 * (4 :: int) ^ j" by simp
      then show False by presburger
    next
      case 3
      then obtain k l where "a = 2 * k" "b = 2 * l + 1" by (auto elim!: oddE evenE)
      then have "a * a + b * b = 4 * (k * k + l * l + l) + 1" by (simp add: algebra_simps)
      with four have "4 * (k * k + l * l + l) + 1 = 4 * (4 :: int) ^ j" by simp
      then show False by presburger
    qed
  qed
  then obtain k l where kl: "a = 2 * k" "b = 2 * l" by (auto elim!: evenE)
  with four have "k * k + l * l = 4 ^ j" by simp
  from Suc.IH[OF this] show ?case by (simp add: kl)
qed


lemma two_p_neg_1074: "two_p k = of_int (2 ^ nat (k + 1074)) * two_p (- 1074)" if "- 1074 \<le> k"
proof -
  have "two_p k = two_p ((k + 1074) + (- 1074))" by simp
  also have "\<dots> = two_p (k + 1074) * two_p (- 1074)" by (rule two_p_add)
  also have "two_p (k + 1074) = of_int (2 ^ nat (k + 1074))"
    by (rule two_p_nat) (use that in simp)
  finally show ?thesis .
qed

lemma unit_double_axis:
  assumes "is_double a" "is_double b" "a * a + b * b = 1"
  shows "(a = 0 \<and> (b = 1 \<or> b = - 1)) \<or> (b = 0 \<and> (a = 1 \<or> a = - 1))"
proof -
  from assms(1) obtain m1 k1 :: int where a: "a = of_int m1 * two_p k1" and k1: "- 1074 \<le> k1"
    unfolding is_double_def by blast
  from assms(2) obtain m2 k2 :: int where b: "b = of_int m2 * two_p k2" and k2: "- 1074 \<le> k2"
    unfolding is_double_def by blast
  define A where "A = m1 * 2 ^ nat (k1 + 1074)"
  define B where "B = m2 * 2 ^ nat (k2 + 1074)"
  define u where "u = two_p (- 1074)"
  have u0: "0 < u" by (simp add: u_def)
  have aA: "a = of_int A * u"
    unfolding a A_def u_def by (subst two_p_neg_1074[OF k1]) simp
  have bB: "b = of_int B * u"
    unfolding b B_def u_def by (subst two_p_neg_1074[OF k2]) simp
  have uu: "u * u * of_int (4 ^ 1074) = 1"
  proof -
    have "two_p (- 1074) * two_p (- 1074) * two_p 2148 = two_p ((- 1074) + (- 1074) + 2148)"
      by (simp only: two_p_add)
    also have "\<dots> = 1" by simp
    finally have "u * u * two_p 2148 = 1" by (simp add: u_def)
    moreover have "two_p 2148 = of_int (2 ^ nat 2148)" by (rule two_p_nat) simp
    moreover have "(2 :: int) ^ nat 2148 = 4 ^ 1074"
    proof -
      have "(4 :: int) ^ 1074 = (2 ^ 2) ^ 1074" by simp
      also have "\<dots> = 2 ^ (2 * 1074)" by (rule power_mult[symmetric])
      finally show ?thesis by simp
    qed
    ultimately show ?thesis by simp
  qed
  have "of_int (A * A + B * B) * (u * u) = 1"
    using assms(3) by (simp add: aA bB algebra_simps)
  then have "of_int (A * A + B * B) * (u * u) = of_int (4 ^ 1074) * (u * u)"
    using uu by (simp add: algebra_simps)
  then have "(of_int (A * A + B * B) :: real) = of_int (4 ^ 1074)"
    using u0 by simp
  then have "A * A + B * B = 4 ^ 1074" by (simp only: of_int_eq_iff)
  then have "A = 0 \<or> B = 0" by (rule sum_squares_pow4)
  then show ?thesis
  proof
    assume "A = 0"
    then have "a = 0" by (simp add: aA)
    with assms(3) have "b * b = 1" by simp
    then have "b = 1 \<or> b = - 1" by (simp only: square_eq_1_iff)
    with \<open>a = 0\<close> show ?thesis by simp
  next
    assume "B = 0"
    then have "b = 0" by (simp add: bB)
    with assms(3) have "a * a = 1" by simp
    then have "a = 1 \<or> a = - 1" by (simp only: square_eq_1_iff)
    with \<open>b = 0\<close> show ?thesis by simp
  qed
qed

lemma is_double_0 [simp]: "is_double 0"
  using is_double_int[of 0] by simp

lemma is_double_twice:
  assumes "is_double x" "\<bar>x\<bar> < two_p 1023"
  shows "is_double (2 * x)"
proof -
  from assms(1) obtain m k :: int where x: "x = of_int m * two_p k"
    and m: "\<bar>m\<bar> < 2 ^ 53" and k: "- 1074 \<le> k" "k \<le> 971"
    unfolding is_double_def by blast
  show ?thesis
  proof (cases "k = 971")
    case True
    have "of_int \<bar>m\<bar> * two_p 971 < of_int (2 ^ 52) * two_p 971"
      using assms(2) by (simp add: x True abs_mult two_p_1023)
    then have "(of_int \<bar>m\<bar> :: real) < of_int (2 ^ 52)"
      by (simp only: mult_less_cancel_right_pos two_p_pos)
    then have "\<bar>m\<bar> < 2 ^ 52" by (simp only: of_int_less_iff)
    then have "\<bar>2 * m\<bar> < 2 ^ 53" by simp
    moreover have "2 * x = of_int (2 * m) * two_p 971" by (simp add: x True)
    ultimately show ?thesis
      unfolding is_double_def by (intro exI[of _ "2 * m"] exI[of _ 971]) simp
  next
    case False
    have "2 * x = of_int m * two_p (k + 1)" by (simp add: x two_p_Suc)
    then show ?thesis
      unfolding is_double_def using m k False by (intro exI[of _ m] exI[of _ "k + 1"]) simp
  qed
qed

lemma rnd_0 [simp]: "rnd 0 = Fin 0"
  by (simp add: rnd_def)

lemmas arith64_defs = add64_def sub64_def mul64_def div64_def

lemma reflect64_normal_y:
  assumes "is_double dx" "is_double dy" "\<bar>dy\<bar> < two_p 1023" "s = 1 \<or> s = - 1"
  shows "reflect64 (Fin dx, Fin dy) (Fin 0, Fin s) = (Fin dx, Fin (- dy))"
    and "dot64 (Fin dx, Fin dy) (Fin 0, Fin s) = Fin (s * dy)"
    and "dot64 (Fin dx, Fin (- dy)) (Fin 0, Fin s) = Fin (- (s * dy))"
proof -
  note r = rnd_id[OF assms(1)] rnd_id[OF assms(2)] rnd_id[OF is_double_uminus[OF assms(2)]]
    rnd_id[OF is_double_twice[OF assms(2,3)]]
    rnd_id[OF is_double_uminus[OF is_double_twice[OF assms(2,3)]]]
  show d: "dot64 (Fin dx, Fin dy) (Fin 0, Fin s) = Fin (s * dy)"
    using assms(4) by (auto simp add: dot64_def arith64_defs r)
  show "reflect64 (Fin dx, Fin dy) (Fin 0, Fin s) = (Fin dx, Fin (- dy))"
    unfolding reflect64_def d Let_def using assms(4) by (auto simp add: arith64_defs r)
  show "dot64 (Fin dx, Fin (- dy)) (Fin 0, Fin s) = Fin (- (s * dy))"
    using assms(4) by (auto simp add: dot64_def arith64_defs r)
qed

lemma reflect64_normal_x:
  assumes "is_double dx" "is_double dy" "\<bar>dx\<bar> < two_p 1023" "s = 1 \<or> s = - 1"
  shows "reflect64 (Fin dx, Fin dy) (Fin s, Fin 0) = (Fin (- dx), Fin dy)"
    and "dot64 (Fin dx, Fin dy) (Fin s, Fin 0) = Fin (s * dx)"
    and "dot64 (Fin (- dx), Fin dy) (Fin s, Fin 0) = Fin (- (s * dx))"
proof -
  note r = rnd_id[OF assms(1)] rnd_id[OF assms(2)] rnd_id[OF is_double_uminus[OF assms(1)]]
    rnd_id[OF is_double_twice[OF assms(1,3)]]
    rnd_id[OF is_double_uminus[OF is_double_twice[OF assms(1,3)]]]
  show d: "dot64 (Fin dx, Fin dy) (Fin s, Fin 0) = Fin (s * dx)"
    using assms(4) by (auto simp add: dot64_def arith64_defs r)
  show "reflect64 (Fin dx, Fin dy) (Fin s, Fin 0) = (Fin (- dx), Fin dy)"
    unfolding reflect64_def d Let_def using assms(4) by (auto simp add: arith64_defs r)
  show "dot64 (Fin (- dx), Fin dy) (Fin s, Fin 0) = Fin (- (s * dx))"
    using assms(4) by (auto simp add: dot64_def arith64_defs r)
qed

lemma dot64_flip:
  "dot64 (Fin (- a), Fin b) (Fin (- a), Fin b) = dot64 (Fin a, Fin b) (Fin a, Fin b)"
  "dot64 (Fin a, Fin (- b)) (Fin a, Fin (- b)) = dot64 (Fin a, Fin b) (Fin a, Fin b)"
  by (simp_all add: dot64_def arith64_defs)

lemma is_double_two_p: "- 1074 \<le> k \<Longrightarrow> k \<le> 1023 \<Longrightarrow> is_double (two_p k)"
proof (cases "k \<le> 971")
  case True
  assume "- 1074 \<le> k"
  with True show ?thesis
    unfolding is_double_def by (intro exI[of _ 1] exI[of _ k]) simp
next
  case False
  assume k: "k \<le> 1023"
  have "two_p k = two_p ((k - 971) + 971)" by simp
  also have "\<dots> = two_p (k - 971) * two_p 971" by (rule two_p_add)
  also have "two_p (k - 971) = of_int (2 ^ nat (k - 971))"
    by (rule two_p_nat) (use False in simp)
  finally have e: "two_p k = of_int (2 ^ nat (k - 971)) * two_p 971" .
  have "nat (k - 971) \<le> 52" using k by simp
  then have "(2 :: int) ^ nat (k - 971) \<le> 2 ^ 52" by (rule power_increasing) simp
  then have "\<bar>(2 :: int) ^ nat (k - 971)\<bar> < 2 ^ 53" by simp
  then show ?thesis
    unfolding is_double_def using e by (intro exI[of _ "2 ^ nat (k - 971)"] exI[of _ 971]) simp
qed

lemma is_double_half: "is_double (1 / 2)"
  using is_double_two_p[of "- 1"] by (simp add: two_p_def powr_minus_divide)

lemma is_double_1: "is_double 1"
  using is_double_int[of 1] by simp

lemma one_less_two_p_1023: "1 < two_p 1023"
  using two_p_less[of 0 1023] by simp

section \<open>Reflection and refraction\<close>

text \<open>
  Claim C7, as stated, fails when the arithmetic overflows: for the direction
  \<open>d = (2\<^sup>1\<^sup>0\<^sup>2\<^sup>3, 2\<^sup>1\<^sup>0\<^sup>2\<^sup>3)\<close> and the unit normal \<open>n = (0, 1)\<close> the product
  \<open>2 * dot(d, n)\<close> is \<open>Infinity\<close>, \<open>Infinity * 0\<close> is \<open>NaN\<close>, and \<open>reflect\<close> returns
  \<open>(NaN, -Infinity)\<close>, whose dot product with \<open>n\<close> is \<open>NaN\<close> and not \<open>-dot(d, n)\<close>.
\<close>

theorem reflect64_overflow:
  "is_double (two_p 1023)
   \<and> reflect64 (Fin (two_p 1023), Fin (two_p 1023)) (Fin 0, Fin 1) = (NaN, NInf)
   \<and> dot64 (reflect64 (Fin (two_p 1023), Fin (two_p 1023)) (Fin 0, Fin 1)) (Fin 0, Fin 1)
        \<noteq> - dot64 (Fin (two_p 1023), Fin (two_p 1023)) (Fin 0, Fin 1)"
proof -
  have d: "is_double (two_p 1023)" by (rule is_double_two_p) simp_all
  have o: "rnd (2 * two_p 1023) = PInf"
    by (rule rnd_overflow) (use two_p_Suc[of 1023] in simp)
  have dt: "dot64 (Fin (two_p 1023), Fin (two_p 1023)) (Fin 0, Fin 1) = Fin (two_p 1023)"
    by (simp add: dot64_def arith64_defs rnd_id[OF d])
  have r: "reflect64 (Fin (two_p 1023), Fin (two_p 1023)) (Fin 0, Fin 1) = (NaN, NInf)"
    unfolding reflect64_def dt Let_def by (simp add: arith64_defs o minus_jsnum_def)
  show ?thesis unfolding r dt using d by (simp add: dot64_def arith64_defs)
qed

text \<open>
  Claim C7, amended. In the double arithmetic of the program, for every incoming
  direction \<open>d\<close> and every unit normal \<open>n\<close> whose components are doubles, if the normal
  component \<open>dot(d, n)\<close> is below \<open>2\<^sup>1\<^sup>0\<^sup>2\<^sup>3\<close> in magnitude (so that its double does not
  overflow), then the direction returned by \<open>reflect\<close>, which is the direction of the one
  segment returned by \<open>FixedMirrorCell.interact\<close>, is the exact reflection
  \<open>d - 2 dot(d, n) n\<close>; it satisfies \<open>dot(outgoing, n) = -dot(d, n)\<close> and
  \<open>|outgoing|\<^sup>2 = |d|\<^sup>2\<close>, hence \<open>|outgoing| = |d|\<close>, the dot products and the square
  root being those the program computes. (The unit vectors of doubles are the four axis
  vectors, which are the normals that \<open>trackRays\<close> passes to \<open>interact\<close>.)
\<close>

theorem reflect64_flips_normal_component:
  assumes "is_double dx" "is_double dy" "is_double nx" "is_double ny"
    and "nx * nx + ny * ny = 1"
    and "\<bar>dx * nx + dy * ny\<bar> < two_p 1023"
  shows "FixedMirrorCell_interact64 start (Fin dx, Fin dy) (Fin nx, Fin ny)
           = ([\<lparr>seg_start = start,
                 seg_direction = reflect64 (Fin dx, Fin dy) (Fin nx, Fin ny)\<rparr>], False)
       \<and> reflect64 (Fin dx, Fin dy) (Fin nx, Fin ny)
           = (Fin (dx - 2 * (dx * nx + dy * ny) * nx), Fin (dy - 2 * (dx * nx + dy * ny) * ny))
       \<and> dot64 (reflect64 (Fin dx, Fin dy) (Fin nx, Fin ny)) (Fin nx, Fin ny)
           = - dot64 (Fin dx, Fin dy) (Fin nx, Fin ny)
       \<and> dot64 (reflect64 (Fin dx, Fin dy) (Fin nx, Fin ny))
               (reflect64 (Fin dx, Fin dy) (Fin nx, Fin ny))
           = dot64 (Fin dx, Fin dy) (Fin dx, Fin dy)
       \<and> dbl (Math_sqrt (dot64 (reflect64 (Fin dx, Fin dy) (Fin nx, Fin ny))
                                 (reflect64 (Fin dx, Fin dy) (Fin nx, Fin ny))))
           = dbl (Math_sqrt (dot64 (Fin dx, Fin dy) (Fin dx, Fin dy)))"
proof -
  from unit_double_axis[OF assms(3,4,5)]
  consider (y) "nx = 0" "ny = 1 \<or> ny = - 1" | (x) "ny = 0" "nx = 1 \<or> nx = - 1" by blast
  then show ?thesis
  proof cases
    case y
    then have b: "\<bar>dy\<bar> < two_p 1023" using assms(6) by auto
    note l = reflect64_normal_y[OF assms(1,2) b y(2)]
    show ?thesis
      unfolding FixedMirrorCell_interact64_def Let_def y(1) l dot64_flip
      using y(2) by auto
  next
    case x
    then have b: "\<bar>dx\<bar> < two_p 1023" using assms(6) by auto
    note l = reflect64_normal_x[OF assms(1,2) b x(2)]
    show ?thesis
      unfolding FixedMirrorCell_interact64_def Let_def x(1) l dot64_flip
      using x(2) by auto
  qed
qed


theorem reflect64_flips_normal_component_witness:
  "is_double (1 / 2) \<and> is_double (- 1) \<and> is_double 0 \<and> is_double 1
   \<and> (0 :: real) * 0 + 1 * 1 = 1 \<and> \<bar>1 / 2 * 0 + (- 1) * (1 :: real)\<bar> < two_p 1023
   \<and> FixedMirrorCell_interact64 (Fin 0, Fin 0) (Fin (1 / 2), Fin (- 1)) (Fin 0, Fin 1)
        = ([\<lparr>seg_start = (Fin 0, Fin 0), seg_direction = (Fin (1 / 2), Fin 1)\<rparr>], False)
   \<and> dot64 (Fin (1 / 2), Fin 1) (Fin 0, Fin 1)
        = - dot64 (Fin (1 / 2), Fin (- 1)) (Fin 0, Fin 1)
   \<and> dot64 (Fin (1 / 2), Fin 1) (Fin (1 / 2), Fin 1)
        = dot64 (Fin (1 / 2), Fin (- 1)) (Fin (1 / 2), Fin (- 1))"
proof -
  have h: "is_double (1 / 2)" "is_double (- 1)" "is_double 0" "is_double 1"
    "(0 :: real) * 0 + 1 * 1 = 1" "\<bar>1 / 2 * 0 + (- 1) * (1 :: real)\<bar> < two_p 1023"
    using is_double_half is_double_uminus[OF is_double_1] is_double_1 one_less_two_p_1023
    by simp_all
  show ?thesis
    using reflect64_flips_normal_component[OF h, of "(Fin 0, Fin 0)"] h by clarsimp
qed




section \<open>Glass block at normal incidence\<close>

text \<open>The loop of the glass block with the result of \<open>refract\<close> read by projections.\<close>

lemma glass_loop_Suc:
  "glass_loop (Suc k) n2 pos dir path =
     (let t_x = (if strict_neq (fst dir) (Fin 0)
                 then ((if Fin 0 < fst dir then Fin 0.5 else Fin (- 0.5)) - fst pos) / fst dir
                 else PInf);
          t_y = (if strict_neq (snd dir) (Fin 0)
                 then ((if Fin 0 < snd dir then Fin 0.5 else Fin (- 0.5)) - snd pos) / snd dir
                 else PInf);
          t_exit = Math_min t_x t_y;
          exitPoint = (fst pos + t_exit * fst dir, snd pos + t_exit * snd dir);
          exitNormal = (if Math_abs (t_x - t_exit) < Fin (1 / 10 ^ 9)
                        then (- Math_sign (fst dir), Fin 0)
                        else (Fin 0, - Math_sign (snd dir)));
          r = refract dir exitNormal n2 (Fin 1);
          path' = path @ [\<lparr>seg_start = exitPoint, seg_direction = fst r\<rparr>]
      in if snd r then glass_loop k n2 exitPoint (fst r) path' else path')"
  by (simp add: Let_def split_beta)

declare glass_loop.simps(2) [simp del]

lemma GlassBlockCell_interact_alt:
  "GlassBlockCell_interact refractiveIndices start direction nrm color =
     (let n2 = refractiveIndex refractiveIndices color;
          r = refract direction nrm (Fin 1) n2;
          path = [\<lparr>seg_start = start, seg_direction = fst r\<rparr>]
      in if snd r then (path, False)
         else (glass_loop 100 n2 start (fst r) path, False))"
  by (simp add: GlassBlockCell_interact_def Let_def split_beta)

lemma refract_normal_incidence:
  assumes "s = 1 \<or> s = - 1"
  shows "refract (Fin 0, Fin s) (Fin 0, Fin (- s)) (Fin 1) (Fin (3 / 2)) = ((Fin 0, Fin s), False)"
    and "refract (Fin s, Fin 0) (Fin (- s), Fin 0) (Fin 1) (Fin (3 / 2)) = ((Fin s, Fin 0), False)"
    and "refract (Fin 0, Fin s) (Fin 0, Fin (- s)) (Fin (3 / 2)) (Fin 1) = ((Fin 0, Fin s), False)"
    and "refract (Fin s, Fin 0) (Fin (- s), Fin 0) (Fin (3 / 2)) (Fin 1) = ((Fin s, Fin 0), False)"
  using assms by (auto simp add: refract_def dot_def Let_def)

lemma glass_loop_normal_incidence:
  assumes "s = 1 \<or> s = - 1"
  shows "glass_loop (Suc k) (Fin (3 / 2)) (Fin px, Fin py) (Fin 0, Fin s) path =
           path @ [\<lparr>seg_start = (Fin px, Fin (s / 2)), seg_direction = (Fin 0, Fin s)\<rparr>]"
    and "glass_loop (Suc k) (Fin (3 / 2)) (Fin px, Fin py) (Fin s, Fin 0) path =
           path @ [\<lparr>seg_start = (Fin (s / 2), Fin py), seg_direction = (Fin s, Fin 0)\<rparr>]"
  using assms refract_normal_incidence(3,4)[of 1] refract_normal_incidence(3,4)[of "- 1"]
  by (auto simp add: Let_def glass_loop_Suc strict_neq_def strict_eq_def Math_min_def)

text \<open>
  Claim C8. For a glass block whose refractive index for the colour of the beam is 1.5,
  a beam that enters at a finite point \<open>(px, py)\<close> with direction antiparallel to the
  face normal (along the y axis, \<open>s = 1\<close> or \<open>s = -1\<close>, or along the x axis) gets exactly
  two segments, the entry segment and the exit segment, both with the incoming direction;
  the exit point lies on the face the direction points to (\<open>y = s/2\<close>, respectively
  \<open>x = s/2\<close>), opposite to the entry face; and \<open>terminate\<close> is false.
\<close>

theorem glass_normal_incidence_passes_straight:
  assumes "refractiveIndex ri color = Fin 1.5" and "s = 1 \<or> s = - 1"
  shows "GlassBlockCell_interact ri (Fin px, Fin py) (Fin 0, Fin s) (Fin 0, Fin (- s)) color
           = ([\<lparr>seg_start = (Fin px, Fin py), seg_direction = (Fin 0, Fin s)\<rparr>,
               \<lparr>seg_start = (Fin px, Fin (s / 2)), seg_direction = (Fin 0, Fin s)\<rparr>], False)
       \<and> GlassBlockCell_interact ri (Fin px, Fin py) (Fin s, Fin 0) (Fin (- s), Fin 0) color
           = ([\<lparr>seg_start = (Fin px, Fin py), seg_direction = (Fin s, Fin 0)\<rparr>,
               \<lparr>seg_start = (Fin (s / 2), Fin py), seg_direction = (Fin s, Fin 0)\<rparr>], False)"
proof -
  have n2: "refractiveIndex ri color = Fin (3 / 2)" using assms(1) by simp
  have l: "glass_loop 100 = glass_loop (Suc 99)" by simp
  show ?thesis
    by (simp only: GlassBlockCell_interact_alt Let_def n2 refract_normal_incidence(1,2)[OF assms(2)]
         fst_conv snd_conv if_False l glass_loop_normal_incidence[OF assms(2)] append_Cons append_Nil)
qed

theorem glass_normal_incidence_passes_straight_witness:
  "refractiveIndex default_refractiveIndices (Some ''red'') = Fin 1.5
   \<and> GlassBlockCell_interact default_refractiveIndices (Fin 0, Fin (- 0.5)) (Fin 0, Fin 1) (Fin 0, Fin (- 1))
        (Some ''red'')
       = ([\<lparr>seg_start = (Fin 0, Fin (- 0.5)), seg_direction = (Fin 0, Fin 1)\<rparr>,
           \<lparr>seg_start = (Fin 0, Fin 0.5), seg_direction = (Fin 0, Fin 1)\<rparr>], False)"
  using glass_normal_incidence_passes_straight
          [of default_refractiveIndices "Some ''red''" 1 0 "- 0.5"]
  by (simp add: refractiveIndex_def default_refractiveIndices_def property_key_def)

section \<open>Blocks, colours and the cross cell\<close>

text \<open>
  Claim C3 does not hold of the code: a beam whose colour is unset is traced with the
  colour \<open>undefined\<close>, which is not \<open>"yellow"\<close>. On the one-cell grid with a yellow
  block, the beam without colour stops at the block (its path ends at its entry point),
  while the same beam with colour \<open>"yellow"\<close> passes and leaves the grid; only the
  renderer, after tracing, takes the unset colour for yellow.
\<close>

theorem unset_color_beam_stops_at_yellow_block:
  "trackRays (parseGrid [[\<lparr>cd_type = ''Block'', cd_color = Some ''yellow'', cd_rotation = None\<rparr>]])
     [\<lparr>beam_start = (Fin 0.5, Fin (- 0.1)), beam_direction = (Fin 0, Fin 1),
       beam_cell = (Fin 0, Fin 0), beam_color = None, beam_path = []\<rparr>]
   = Some (Inr ([[BlockCell ''yellow'']],
       [\<lparr>beam_start = (Fin 0.5, Fin (- 0.1)), beam_direction = (Fin 0, Fin 1),
         beam_cell = (Fin 0, Fin 0), beam_color = None,
         beam_path = [(Fin 0.5, Fin (- 0.1)), (Fin 0.5, Fin (- 0.1))]\<rparr>]))
   \<and> trackRays (parseGrid [[\<lparr>cd_type = ''Block'', cd_color = Some ''yellow'', cd_rotation = None\<rparr>]])
     [\<lparr>beam_start = (Fin 0.5, Fin (- 0.1)), beam_direction = (Fin 0, Fin 1),
       beam_cell = (Fin 0, Fin 0), beam_color = Some ''yellow'', beam_path = []\<rparr>]
   = Some (Inr ([[BlockCell ''yellow'']],
       [\<lparr>beam_start = (Fin 0.5, Fin (- 0.1)), beam_direction = (Fin 0, Fin 1),
         beam_cell = (Fin 0, Fin 0), beam_color = Some ''yellow'',
         beam_path = [(Fin 0.5, Fin (- 0.1)), (Fin 0.5, Fin 1)]\<rparr>]))
   \<and> BlockCell_interact ''yellow'' (Fin 0, Fin (- 0.6)) (Fin 0, Fin 1) (Fin 0, Fin 1) None
       = ([\<lparr>seg_start = (Fin 0, Fin (- 0.6)), seg_direction = (Fin 0, Fin 1)\<rparr>], True)
   \<and> drawBeams_color None = ''yellow''"
  by (simp add: trackRays_def parseGrid_def parseCell_def trackBeam_def init_trace_def
      trackLoop.simps MAX_INTERACTIONS_def trackStep_def array_get_def
      BlockCell_interact_def add_segment_def set_cell_def array_set_def Let_def
      strict_neq_def strict_eq_def drawBeams_color_def)

text \<open>
  Claim C10. A \<open>Block\<close> cell of the level data without a colour is parsed to a block of
  colour \<open>"black"\<close>, and for a beam colour that is \<open>"yellow"\<close>, \<open>"red"\<close>, \<open>"blue"\<close> or
  unset, its \<open>interact\<close> returns the single segment \<open>{start, direction}\<close> and
  \<open>terminate = true\<close>, for every start, direction and normal.
\<close>

theorem colourless_block_is_black_and_stops:
  assumes "cd_type cd = ''Block''" "cd_color cd = None"
    and "color \<in> {None, Some ''yellow'', Some ''red'', Some ''blue''}"
  shows "parseCell cd = BlockCell ''black''
       \<and> fst (interact (parseCell cd) start direction normal color)
           = ([\<lparr>seg_start = start, seg_direction = direction\<rparr>], True)"
  using assms by (auto simp add: parseCell_def BlockCell_interact_def)

theorem colourless_block_is_black_and_stops_witness:
  "cd_type \<lparr>cd_type = ''Block'', cd_color = None, cd_rotation = None\<rparr> = ''Block''
   \<and> cd_color \<lparr>cd_type = ''Block'', cd_color = None, cd_rotation = None\<rparr> = None
   \<and> Some ''red'' \<in> {None, Some ''yellow'', Some ''red'', Some ''blue''}
   \<and> fst (interact (parseCell \<lparr>cd_type = ''Block'', cd_color = None, cd_rotation = None\<rparr>)
            (Fin 0, Fin (- 0.5)) (Fin 0, Fin 1) (Fin 0, Fin (- 1)) (Some ''red''))
       = ([\<lparr>seg_start = (Fin 0, Fin (- 0.5)), seg_direction = (Fin 0, Fin 1)\<rparr>], True)"
  using colourless_block_is_black_and_stops
          [of "\<lparr>cd_type = ''Block'', cd_color = None, cd_rotation = None\<rparr>" "Some ''red''"
              "(Fin 0, Fin (- 0.5))" "(Fin 0, Fin 1)" "(Fin 0, Fin (- 1))"]
  by (simp add: parseCell_def BlockCell_interact_def)

text \<open>
  Claim C9. For a cross cell with slot half-width 0 and any rotation, every ray with
  finite start and direction whose line passes through the cell centre (the cross
  product of start and direction is 0; more generally, is at most 0.5 in absolute value)
  is stopped: \<open>CrossCell.interact\<close> returns one segment, with the direction of the ray,
  and \<open>terminate = true\<close>.
\<close>

theorem cross_width_zero_stops_centre_ray:
  assumes "\<bar>sx * dy - sy * dx\<bar> \<le> 1 / 2"
  shows "\<exists>hit. CrossCell_interact rotation (Fin 0) (Fin sx, Fin sy) (Fin dx, Fin dy)
           = ([\<lparr>seg_start = hit, seg_direction = (Fin dx, Fin dy)\<rparr>], True)"
  using assms by (simp add: CrossCell_interact_def Let_def)

theorem cross_width_zero_stops_centre_ray_witness:
  "\<bar>(0::real) * 1 - (- (1 / 2)) * 0\<bar> \<le> 1 / 2
   \<and> (\<exists>hit. CrossCell_interact (Fin (pi / 6)) (Fin 0) (Fin 0, Fin (- (1 / 2))) (Fin 0, Fin 1)
           = ([\<lparr>seg_start = hit, seg_direction = (Fin 0, Fin 1)\<rparr>], True))"
  using cross_width_zero_stops_centre_ray [of 0 1 "- (1 / 2)" 0 "Fin (pi / 6)"]
  by simp

section \<open>Level loading\<close>

text \<open>
  Claim C4 does not hold of the code at rotation 0: \<open>parseGrid\<close> tests the rotation
  field for truthiness, so a \<open>RotatableMirror\<close> with \<open>rotation: 0\<close> gets the default
  \<open>\<pi>/4\<close> and not 0 radians. A rotation other than 0 is converted to radians.
\<close>

theorem rotatable_mirror_rotation_zero_gets_default:
  "parseCell \<lparr>cd_type = ''RotatableMirror'', cd_color = None, cd_rotation = Some (Fin 0)\<rparr>
     = RotatableMirrorCell (Fin (pi / 4))
   \<and> Fin (pi / 4) \<noteq> Fin 0
   \<and> parseCell \<lparr>cd_type = ''RotatableMirror'', cd_color = None, cd_rotation = Some (Fin 90)\<rparr>
     = RotatableMirrorCell (Fin (90 / 180 * pi))"
  by (simp add: parseCell_def Math_PI_def)

section \<open>Win condition and gauge\<close>

lemma checkWinCondition_lastTimestamp:
  "checkWinCondition (g\<lparr>lastTimestamp := t\<rparr>) = checkWinCondition g"
  by (simp add: checkWinCondition_def)

text \<open>
  Claim C6. \<open>checkWinCondition\<close> is true exactly when the list of targets is not empty
  and the \<open>receive\<close> flag of every target is true; no other part of the state, the gauge
  included, is read. In particular it is false for the empty list.
\<close>

theorem checkWinCondition_iff:
  "checkWinCondition g
     = (targetCells g \<noteq> [] \<and> list_all (target_receive (game_grid g)) (targetCells g))"
  by (auto simp add: checkWinCondition_def Let_def list_all_iff)

theorem checkWinCondition_iff_witness:
  "checkWinCondition \<lparr>game_grid = [[TargetCell True]], targetCells = [], isGameRunning = True,
       isLevelClear = False, gaugeValue = Fin 1, lastTimestamp = Fin 0\<rparr> = False
   \<and> checkWinCondition \<lparr>game_grid = [[TargetCell True]], targetCells = [(0, 0)], isGameRunning = True,
       isLevelClear = False, gaugeValue = Fin 0, lastTimestamp = Fin 0\<rparr> = True"
  using checkWinCondition_iff [of "\<lparr>game_grid = [[TargetCell True]], targetCells = [],
          isGameRunning = True, isLevelClear = False, gaugeValue = Fin 1, lastTimestamp = Fin 0\<rparr>"]
        checkWinCondition_iff [of "\<lparr>game_grid = [[TargetCell True]], targetCells = [(0, 0)],
          isGameRunning = True, isLevelClear = False, gaugeValue = Fin 0, lastTimestamp = Fin 0\<rparr>"]
  by (simp add: target_receive_def)

text \<open>
  Claim C5. If before a frame the gauge is a number in \<open>[0, 1]\<close> and the time step
  \<open>deltaTime = timestamp - lastTimestamp\<close> is not negative, then after the update of
  \<open>gameLoop\<close> the gauge is again a number in \<open>[0, 1]\<close>; while the game runs it is
  \<open>min(gauge + 0.3 * deltaTime / 1000, 1)\<close> when all targets are hit and
  \<open>max(0, gauge - 4 * deltaTime / 1000)\<close> otherwise.
\<close>

theorem gauge_stays_in_unit_interval:
  assumes "gaugeValue g = Fin v" "0 \<le> v" "v \<le> 1"
    and "lastTimestamp g = Fin t0" "t0 \<le> ts"
  shows "\<exists>v'. gaugeValue (gameLoop g (Fin ts)) = Fin v' \<and> 0 \<le> v' \<and> v' \<le> 1
          \<and> (isGameRunning g \<longrightarrow>
               v' = (if checkWinCondition g then min (v + 0.3 * ((ts - t0) / 1000)) 1
                     else max 0 (v - 4 * ((ts - t0) / 1000))))"
proof (cases "isGameRunning g")
  case False
  then show ?thesis using assms by (simp add: gameLoop_def)
next
  case True
  have d: "0 \<le> (ts - t0) / 1000" using assms by simp
  show ?thesis
  proof (cases "checkWinCondition g")
    case w: True
    have "0 \<le> v + 0.3 * ((ts - t0) / 1000)" using d assms(2) by linarith
    then show ?thesis using True w assms
      by (simp add: gameLoop_def Let_def checkWinCondition_lastTimestamp
          GAUGE_FILL_RATE_def Math_min_def min_def)
  next
    case w: False
    have "v - 4 * ((ts - t0) / 1000) \<le> 1" using d assms(3) by linarith
    then show ?thesis using True w assms
      by (simp add: gameLoop_def Let_def checkWinCondition_lastTimestamp
          GAUGE_DECAY_RATE_def Math_max_def max_def)
  qed
qed

theorem gauge_stays_in_unit_interval_witness:
  "gaugeValue \<lparr>game_grid = [[TargetCell True]], targetCells = [(0, 0)], isGameRunning = True,
       isLevelClear = False, gaugeValue = Fin (1 / 2), lastTimestamp = Fin 0\<rparr> = Fin (1 / 2)
   \<and> (0::real) \<le> 1 / 2 \<and> (1 / 2 ::real) \<le> 1 \<and> (0::real) \<le> 1000
   \<and> isGameRunning \<lparr>game_grid = [[TargetCell True]], targetCells = [(0, 0)], isGameRunning = True,
       isLevelClear = False, gaugeValue = Fin (1 / 2), lastTimestamp = Fin 0\<rparr>
   \<and> (\<exists>v'. gaugeValue (gameLoop \<lparr>game_grid = [[TargetCell True]], targetCells = [(0, 0)],
          isGameRunning = True, isLevelClear = False, gaugeValue = Fin (1 / 2),
          lastTimestamp = Fin 0\<rparr> (Fin 1000)) = Fin v' \<and> 0 \<le> v' \<and> v' \<le> 1)"
  using gauge_stays_in_unit_interval
          [of "\<lparr>game_grid = [[TargetCell True]], targetCells = [(0, 0)], isGameRunning = True,
                 isLevelClear = False, gaugeValue = Fin (1 / 2), lastTimestamp = Fin 0\<rparr>"
              "1 / 2" 0 1000]
  by auto

section \<open>Termination of the tracer in exact arithmetic\<close>

subsection \<open>Glass block\<close>

lemma refract_finite:
  assumes "n2 \<noteq> 0"
  shows "\<exists>ex ey. fst (refract (Fin ix, Fin iy) (Fin nx, Fin ny) (Fin n1) (Fin n2)) = (Fin ex, Fin ey)"
  by (simp add: refract_Fin[OF assms] Let_def reflect_Fin)

lemma refract_zero:
  assumes "n2 \<noteq> 0"
  shows "fst (refract (Fin 0, Fin 0) (Fin 0, Fin 0) (Fin n1) (Fin n2)) = (Fin 0, Fin 0)"
  by (simp add: refract_Fin[OF assms] Let_def reflect_Fin)

lemma refract_NaN:
  "refract d n n1 NaN = ((NaN, NaN), False)"
  "refract d n NaN n2 = ((NaN, NaN), False)"
  by (simp_all add: refract_def Let_def)

lemma glass_loop_inv:
  assumes "v \<noteq> 0" "glass_inv pos dir" "path \<noteq> []"
    "glass_inv (seg_start (last path)) (seg_direction (last path))"
  shows "glass_loop k (Fin v) pos dir path \<noteq> []
       \<and> glass_inv (seg_start (last (glass_loop k (Fin v) pos dir path)))
                   (seg_direction (last (glass_loop k (Fin v) pos dir path)))
       \<and> length (glass_loop k (Fin v) pos dir path) \<le> length path + k"
  using assms(2-)
proof (induction k arbitrary: pos dir path)
  case 0
  then show ?case by simp
next
  case (Suc k)
  from Suc.prems(1) obtain a b where d: "dir = (Fin a, Fin b)"
    and c: "(a = 0 \<and> b = 0) \<or> (\<exists>px py. pos = (Fin px, Fin py))"
    unfolding glass_inv_def by blast
  define t_x where "t_x = (if strict_neq (fst dir) (Fin 0)
                 then ((if Fin 0 < fst dir then Fin 0.5 else Fin (- 0.5)) - fst pos) / fst dir
                 else PInf)"
  define t_y where "t_y = (if strict_neq (snd dir) (Fin 0)
                 then ((if Fin 0 < snd dir then Fin 0.5 else Fin (- 0.5)) - snd pos) / snd dir
                 else PInf)"
  define t_exit where "t_exit = Math_min t_x t_y"
  define exitPoint where "exitPoint = (fst pos + t_exit * fst dir, snd pos + t_exit * snd dir)"
  define exitNormal where "exitNormal = (if Math_abs (t_x - t_exit) < Fin (1 / 10 ^ 9)
                        then (- Math_sign (fst dir), Fin 0)
                        else (Fin 0, - Math_sign (snd dir)))"
  define r where "r = refract dir exitNormal (Fin v) (Fin 1)"
  define path' where "path' = path @ [\<lparr>seg_start = exitPoint, seg_direction = fst r\<rparr>]"
  have unf: "glass_loop (Suc k) (Fin v) pos dir path
      = (if snd r then glass_loop k (Fin v) exitPoint (fst r) path' else path')"
    unfolding glass_loop_Suc t_x_def t_y_def t_exit_def exitPoint_def exitNormal_def r_def path'_def Let_def
    by (rule refl)
  have inv': "glass_inv exitPoint (fst r)"
  proof (cases "a = 0 \<and> b = 0")
    case True
    then have "exitNormal = (Fin 0, Fin 0)"
      unfolding exitNormal_def t_exit_def t_x_def t_y_def d
      by (simp add: strict_neq_def strict_eq_def Math_min_def)
    then have "fst r = (Fin 0, Fin 0)"
      unfolding r_def d using True refract_zero[of 1 v] by simp
    then show ?thesis by (simp add: glass_inv_def)
  next
    case False
    with c obtain px py where p: "pos = (Fin px, Fin py)" by blast
    from False have "\<exists>t. t_exit = Fin t"
      unfolding t_exit_def t_x_def t_y_def d p
      by (auto simp add: strict_neq_def strict_eq_def Math_min_def)
    then obtain t where t: "t_exit = Fin t" by blast
    have ep: "exitPoint = (Fin (px + t * a), Fin (py + t * b))"
      unfolding exitPoint_def t d p by simp
    have "\<exists>ma mb. exitNormal = (Fin ma, Fin mb)"
      unfolding exitNormal_def d by simp
    then obtain ma mb where "exitNormal = (Fin ma, Fin mb)" by blast
    then have "\<exists>ex ey. fst r = (Fin ex, Fin ey)"
      unfolding r_def d using refract_finite[of 1 a b ma mb v] by simp
    then show ?thesis using ep by (auto simp add: glass_inv_def)
  qed
  have p': "path' \<noteq> []" "glass_inv (seg_start (last path')) (seg_direction (last path'))"
       "length path' = length path + 1"
    using inv' by (simp_all add: path'_def)
  show ?case
  proof (cases "snd r")
    case True
    from Suc.IH[OF inv' p'(1) p'(2)] p'(3) show ?thesis
      unfolding unf using True by simp
  next
    case False
    then show ?thesis unfolding unf using p' by simp
  qed
qed

lemma refractiveIndex_cases:
  assumes "cell_ok (GlassBlockCell ri)"
  shows "(map_of ri (property_key color) = None \<and> refractiveIndex ri color = NaN)
       \<or> (\<exists>v. refractiveIndex ri color = Fin v \<and> v \<noteq> 0)"
proof (cases "map_of ri (property_key color)")
  case None
  then show ?thesis by (simp add: refractiveIndex_def)
next
  case (Some x)
  then have "(property_key color, x) \<in> set ri" by (rule map_of_SomeD)
  with assms have "finite_nonzero x" by (auto simp add: list_all_iff)
  then show ?thesis using Some by (cases x) (simp_all add: refractiveIndex_def)
qed

lemma glass_loop_NaN:
  "glass_loop (Suc k) NaN pos (NaN, NaN) path
     = path @ [\<lparr>seg_start = (NaN, NaN), seg_direction = (NaN, NaN)\<rparr>]"
  by (simp add: glass_loop_Suc Let_def strict_neq_def strict_eq_def Math_min_def refract_NaN)

lemma glass_loop_NaN_100:
  "glass_loop 100 NaN pos (NaN, NaN) path
     = path @ [\<lparr>seg_start = (NaN, NaN), seg_direction = (NaN, NaN)\<rparr>]"
  using glass_loop_NaN[of 99 pos path] by simp

lemma glass_interact_ok:
  assumes "cell_ok (GlassBlockCell ri)" "direction = (Fin dx, Fin dy)" "nrm = (Fin na, Fin nb)"
    "(dx = 0 \<and> dy = 0 \<and> na = 0 \<and> nb = 0) \<or> (\<exists>px py. start = (Fin px, Fin py))"
  shows "\<exists>segs. GlassBlockCell_interact ri start direction nrm color = (segs, False)
       \<and> segs \<noteq> [] \<and> length segs \<le> 101
       \<and> ((seg_direction (last segs) = (NaN, NaN) \<and> map_of ri (property_key color) = None)
          \<or> glass_inv (seg_start (last segs)) (seg_direction (last segs)))"
proof -
  from refractiveIndex_cases[OF assms(1), of color]
  consider "map_of ri (property_key color) = None" "refractiveIndex ri color = NaN"
    | v where "refractiveIndex ri color = Fin v" "v \<noteq> 0" by auto
  then show ?thesis
  proof cases
    case 1
    show ?thesis
      by (simp add: GlassBlockCell_interact_alt 1 Let_def refract_NaN glass_loop_NaN_100)
  next
    case 2
    define r where "r = refract direction nrm (Fin 1) (Fin v)"
    define path where "path = [\<lparr>seg_start = start, seg_direction = fst r\<rparr>]"
    have unf: "GlassBlockCell_interact ri start direction nrm color
        = (if snd r then (path, False) else (glass_loop 100 (Fin v) start (fst r) path, False))"
      by (simp add: GlassBlockCell_interact_alt 2 Let_def r_def path_def)
    have inv: "glass_inv start (fst r)"
    proof (cases "dx = 0 \<and> dy = 0 \<and> na = 0 \<and> nb = 0")
      case True
      then have "fst r = (Fin 0, Fin 0)"
        unfolding r_def assms(2,3) using refract_zero[OF 2(2), of 1] by simp
      then show ?thesis by (simp add: glass_inv_def)
    next
      case False
      with assms(4) obtain px py where "start = (Fin px, Fin py)" by blast
      moreover have "\<exists>ex ey. fst r = (Fin ex, Fin ey)"
        unfolding r_def assms(2,3) by (rule refract_finite[OF 2(2)])
      ultimately show ?thesis by (auto simp add: glass_inv_def)
    qed
    have p: "path \<noteq> []" "glass_inv (seg_start (last path)) (seg_direction (last path))"
      "length path = 1"
      using inv by (simp_all add: path_def)
    show ?thesis
    proof (cases "snd r")
      case True
      then show ?thesis unfolding unf using p by simp
    next
      case False
      from glass_loop_inv[OF 2(2) inv p(1) p(2), of 100] p(3)
      show ?thesis unfolding unf using False by simp
    qed
  qed
qed

subsection \<open>Mirrors and the cross cell\<close>

lemma glass_inv_cases:
  assumes "glass_inv (seg_start l) (seg_direction l)"
  shows "good_seg l \<or> seg_direction l = (Fin 0, Fin 0)"
  using assms unfolding glass_inv_def good_seg_def by auto

lemma reflect_sq_norm:
  assumes "nx * nx + ny * ny = 1 \<or> (nx = 0 \<and> ny = 0)"
  shows "(dx - 2 * (dx * nx + dy * ny) * nx) * (dx - 2 * (dx * nx + dy * ny) * nx)
       + (dy - 2 * (dx * nx + dy * ny) * ny) * (dy - 2 * (dx * nx + dy * ny) * ny)
       = dx * dx + dy * (dy::real)"
proof -
  let ?k = "dx * nx + dy * ny"
  have e: "(dx - 2 * ?k * nx) * (dx - 2 * ?k * nx) + (dy - 2 * ?k * ny) * (dy - 2 * ?k * ny)
       = dx * dx + dy * dy - 4 * ?k * ?k + 4 * ?k * ?k * (nx * nx + ny * ny)"
    by (simp add: algebra_simps)
  from assms show ?thesis
  proof
    assume "nx * nx + ny * ny = 1"
    with e show ?thesis by (simp only:; simp)
  next
    assume "nx = 0 \<and> ny = 0"
    then show ?thesis by simp
  qed
qed

lemma reflect_nonzero:
  assumes "nx * nx + ny * ny = 1 \<or> (nx = 0 \<and> ny = 0)" "dx \<noteq> 0 \<or> dy \<noteq> 0"
  shows "\<exists>ex ey. reflect (Fin dx, Fin dy) (Fin nx, Fin ny) = (Fin ex, Fin ey) \<and> (ex \<noteq> 0 \<or> ey \<noteq> (0::real))"
proof -
  let ?ex = "dx - 2 * (dx * nx + dy * ny) * nx"
  let ?ey = "dy - 2 * (dx * nx + dy * ny) * ny"
  have "?ex * ?ex + ?ey * ?ey = dx * dx + dy * dy" by (rule reflect_sq_norm[OF assms(1)])
  moreover have "dx * dx + dy * dy \<noteq> 0" using assms(2)
    by (metis add.right_neutral mult_eq_0_iff sum_squares_eq_zero_iff)
  ultimately have "?ex \<noteq> 0 \<or> ?ey \<noteq> 0" by auto
  then show ?thesis unfolding reflect_Fin by blast
qed

lemma cross_cases:
  "length (fst (CrossCell_interact r w s d)) \<le> 1
   \<and> (snd (CrossCell_interact r w s d) \<or> fst (CrossCell_interact r w s d) = [])"
proof -
  have if_ok: "\<And>c a b. P a \<Longrightarrow> P b \<Longrightarrow> P (if c then a else b)" for P :: "segment list \<times> bool \<Rightarrow> bool"
    by simp
  let ?P = "\<lambda>x. length (fst x) \<le> 1 \<and> (snd x \<or> fst x = [])"
  have "?P (CrossCell_interact r w s d)"
    unfolding CrossCell_interact_def Let_def
    by (intro if_ok[of ?P]) simp_all
  then show ?thesis .
qed

lemma intersection_finite:
  assumes "getLineSegmentIntersection (Fin px, Fin py) (Fin dx, Fin dy) (Fin ax, Fin ay) (Fin bx, Fin by) = Some i"
  shows "\<exists>ix iy. i = (Fin ix, Fin iy)"
  using assms
  by (auto simp add: getLineSegmentIntersection_def Let_def dot_Fin split: if_splits)

lemma intersection_NaN:
  "getLineSegmentIntersection s d (NaN, NaN) (NaN, NaN) = None"
  by (simp add: getLineSegmentIntersection_def Let_def dot_def)

lemma rot_cases:
  assumes "dx \<noteq> 0 \<or> dy \<noteq> 0"
  shows "RotatableMirrorCell_interact rotation (Fin px, Fin py) (Fin dx, Fin dy) = ([], False)
       \<or> (\<exists>l. RotatableMirrorCell_interact rotation (Fin px, Fin py) (Fin dx, Fin dy) = ([l], False)
              \<and> good_seg l)"
proof (cases rotation)
  case (Fin \<theta>)
  let ?g = "getLineSegmentIntersection (Fin px, Fin py) (Fin dx, Fin dy)
              (Fin (- 0.5 * cos \<theta>), Fin (- 0.5 * sin \<theta>)) (Fin (0.5 * cos \<theta>), Fin (0.5 * sin \<theta>))"
  let ?n = "if 0 < dx * (- sin \<theta>) + dy * cos \<theta>
            then (Fin (sin \<theta>), Fin (- cos \<theta>)) else (Fin (- sin \<theta>), Fin (cos \<theta>))"
  have u0: "sin \<theta> * sin \<theta> + cos \<theta> * cos \<theta> = 1"
    by (simp add: power2_eq_square[symmetric])
  have unf: "RotatableMirrorCell_interact rotation (Fin px, Fin py) (Fin dx, Fin dy)
      = (case ?g of
           Some i \<Rightarrow> ([\<lparr>seg_start = i, seg_direction = reflect (Fin dx, Fin dy) ?n\<rparr>], False)
         | None \<Rightarrow> ([], False))"
    by (simp add: RotatableMirrorCell_interact_def Let_def Fin dot_Fin u0 cong: option.case_cong)
  show ?thesis
  proof (cases ?g)
    case None
    then show ?thesis unfolding unf by simp
  next
    case (Some i)
    then obtain ix iy where i: "i = (Fin ix, Fin iy)"
      using intersection_finite by blast
    have u: "(- sin \<theta>) * (- sin \<theta>) + cos \<theta> * cos \<theta> = 1" "sin \<theta> * sin \<theta> + (- cos \<theta>) * (- cos \<theta>) = 1"
      using u0 by simp_all
    have "\<exists>ex ey. reflect (Fin dx, Fin dy) ?n = (Fin ex, Fin ey) \<and> (ex \<noteq> 0 \<or> ey \<noteq> 0)"
      using reflect_nonzero[OF disjI1[OF u(1)] assms] reflect_nonzero[OF disjI1[OF u(2)] assms]
      by (simp split: if_split)
    then have "good_seg \<lparr>seg_start = i, seg_direction = reflect (Fin dx, Fin dy) ?n\<rparr>"
      unfolding good_seg_def i by auto
    then show ?thesis unfolding unf Some by simp
  qed
qed (simp_all add: RotatableMirrorCell_interact_def Let_def intersection_NaN)

subsection \<open>The body of the loop\<close>

lemma foldl_add_segment_same [simp]:
  "t_c (foldl add_segment st segs) = t_c st"
  "t_p (foldl add_segment st segs) = t_p st"
  "t_normal (foldl add_segment st segs) = t_normal st"
  "t_grid (foldl add_segment st segs) = t_grid st"
  "interactionCount (foldl add_segment st segs) = interactionCount st + length segs"
  by (induction segs arbitrary: st; simp add: add_segment_def split_beta Let_def)+

lemma foldl_add_segment_last:
  assumes "segs \<noteq> []"
  shows "t_d (foldl add_segment st segs) = seg_direction (last segs)"
    and "t_s (foldl add_segment st segs)
          = (fst (seg_start (last segs)) + fst (t_c st) + Fin 0.5,
             snd (seg_start (last segs)) + snd (t_c st) + Fin 0.5)"
  using assms
  by (induction segs rule: rev_induct; simp add: add_segment_def split_beta Let_def)+

lemma trackStep_alt:
  "trackStep gridWidth gridHeight color st =
     (case cell_at (t_grid st) (t_c st) of
        None \<Rightarrow> Inl (Inl TypeError)
      | Some cell \<Rightarrow>
          let r = interact cell (fst (t_p st) - fst (t_c st) - Fin 0.5, snd (t_p st) - snd (t_c st) - Fin 0.5)
                    (t_d st) (t_normal st) color;
              st2 = foldl add_segment
                      (st\<lparr>t_grid := set_cell (t_grid st) (snd (t_c st)) (fst (t_c st)) (snd r)\<rparr>)
                      (fst (fst r))
          in if snd (fst r) then Inl (Inr st2) else advance gridWidth gridHeight st2)"
  by (simp add: trackStep_def advance_def cell_at_def split_beta Let_def split: option.splits)

lemma array_get_Some:
  assumes "array_get xs i = Some x"
  shows "\<exists>r. i = Fin r \<and> of_int \<lfloor>r\<rfloor> = r \<and> 0 \<le> r \<and> r < real (length xs)
           \<and> nat \<lfloor>r\<rfloor> < length xs \<and> x = xs ! nat \<lfloor>r\<rfloor>"
proof (cases i)
  case (Fin r)
  with assms have r: "of_int \<lfloor>r\<rfloor> = r" "0 \<le> r" "r < real (length xs)" "x = xs ! nat \<lfloor>r\<rfloor>"
    by (auto simp add: array_get_def split: if_splits)
  have "nat \<lfloor>r\<rfloor> < length xs" using r(2,3) by linarith
  with r Fin show ?thesis by simp
qed (use assms in \<open>simp_all add: array_get_def\<close>)

lemma array_get_set:
  assumes "array_get xs i = Some x"
  shows "array_get (array_set xs i y) i = Some y"
proof -
  from array_get_Some[OF assms] obtain r where r: "i = Fin r" "0 \<le> r" "r < real (length xs)"
    "nat \<lfloor>r\<rfloor> < length xs" by blast
  from assms have "of_int \<lfloor>r\<rfloor> = r" by (auto simp add: array_get_def r(1) split: if_splits)
  then show ?thesis using r by (simp add: array_get_def array_set_def)
qed

lemma cell_at_set_cell:
  assumes "cell_at grid (cx, cy) = Some c"
  shows "cell_at (set_cell grid cy cx c') (cx, cy) = Some c'"
proof -
  from assms obtain row where row: "array_get grid cy = Some row" "array_get row cx = Some c"
    by (auto simp add: cell_at_def split: option.splits)
  show ?thesis
    by (simp add: cell_at_def set_cell_def row array_get_set[OF row(1)] array_get_set[OF row(2)])
qed

lemma list_all_update: "list_all P xs \<Longrightarrow> P y \<Longrightarrow> list_all P (xs[n := y])"
  by (auto simp add: list_all_iff dest: set_update_subset_insert[THEN subsetD])

lemma grid_ok_set_cell:
  assumes "grid_ok grid" "cell_ok c'"
  shows "grid_ok (set_cell grid cy cx c')"
proof (cases "array_get grid cy")
  case None
  then show ?thesis using assms by (simp add: set_cell_def)
next
  case (Some row)
  from array_get_Some[OF Some] obtain r where r: "cy = Fin r" "nat \<lfloor>r\<rfloor> < length grid" "row = grid ! nat \<lfloor>r\<rfloor>"
    by blast
  have "list_all cell_ok row" using assms(1) r(2,3) by (simp add: grid_ok_def list_all_length)
  then have "list_all cell_ok (array_set row cx c')"
    using assms(2) by (cases cx) (simp_all add: array_set_def list_all_update)
  then have "list_all (list_all cell_ok) (array_set grid cy (array_set row cx c'))"
    using assms(1) by (simp add: r(1) array_set_def grid_ok_def list_all_update)
  then show ?thesis
    by (simp add: set_cell_def Some grid_ok_def)
qed

lemma cell_at_ok:
  assumes "grid_ok grid" "cell_at grid c = Some x"
  shows "cell_ok x"
proof -
  from assms(2) obtain row where row: "array_get grid (snd c) = Some row" "array_get row (fst c) = Some x"
    by (auto simp add: cell_at_def split: option.splits)
  from array_get_Some[OF row(1)] have "row \<in> set grid" by auto
  moreover from array_get_Some[OF row(2)] have "x \<in> set row" by auto
  ultimately show ?thesis using assms(1) by (auto simp add: grid_ok_def list_all_iff)
qed

lemma cell_at_finite:
  assumes "cell_at grid c = Some x"
  shows "\<exists>cx cy. c = (Fin cx, Fin cy) \<and> of_int \<lfloor>cx\<rfloor> = cx \<and> of_int \<lfloor>cy\<rfloor> = cy"
proof -
  from assms obtain row where row: "array_get grid (snd c) = Some row" "array_get row (fst c) = Some x"
    by (auto simp add: cell_at_def split: option.splits)
  from array_get_Some[OF row(1)] array_get_Some[OF row(2)] show ?thesis
    by (cases c) auto
qed

lemma cell_at_NaN: "cell_at grid (cx, NaN) = None"
  by (simp add: cell_at_def array_get_def)

lemma grid_knows_set_cell:
  assumes "grid_knows color grid" "cell_knows color c'"
  shows "grid_knows color (set_cell grid cy cx c')"
proof (cases "array_get grid cy")
  case None
  then show ?thesis using assms by (simp add: set_cell_def)
next
  case (Some row)
  from array_get_Some[OF Some] obtain r where r: "cy = Fin r" "nat \<lfloor>r\<rfloor> < length grid" "row = grid ! nat \<lfloor>r\<rfloor>"
    by blast
  have "list_all (cell_knows color) row"
    using assms(1) r(2,3) by (simp add: grid_knows_def list_all_length)
  then have "list_all (cell_knows color) (array_set row cx c')"
    using assms(2) by (cases cx) (simp_all add: array_set_def list_all_update)
  then have "list_all (list_all (cell_knows color)) (array_set grid cy (array_set row cx c'))"
    using assms(1) by (simp add: r(1) array_set_def grid_knows_def list_all_update)
  then show ?thesis
    by (simp add: set_cell_def Some grid_knows_def)
qed

lemma cell_at_knows:
  assumes "grid_knows color grid" "cell_at grid c = Some x"
  shows "cell_knows color x"
proof -
  from assms(2) obtain row where row: "array_get grid (snd c) = Some row" "array_get row (fst c) = Some x"
    by (auto simp add: cell_at_def split: option.splits)
  from array_get_Some[OF row(1)] have "row \<in> set grid" by auto
  moreover from array_get_Some[OF row(2)] have "x \<in> set row" by auto
  ultimately show ?thesis using assms(1) by (auto simp add: grid_knows_def list_all_iff)
qed

lemma rect_set_cell:
  assumes "rect_grid w h grid"
  shows "rect_grid w h (set_cell grid cy cx c')"
proof (cases "array_get grid cy")
  case None
  then show ?thesis using assms by (simp add: set_cell_def)
next
  case (Some row)
  from array_get_Some[OF Some] obtain r where r: "cy = Fin r" "nat \<lfloor>r\<rfloor> < length grid" "row = grid ! nat \<lfloor>r\<rfloor>"
    by blast
  have "real (length row) = w"
    using assms r(2,3) by (simp add: rect_grid_def list_all_length)
  then have "real (length (array_set row cx c')) = w"
    by (cases cx) (simp_all add: array_set_def)
  then have "rect_grid w h (array_set grid cy (array_set row cx c'))"
    using assms by (simp add: r(1) array_set_def rect_grid_def list_all_update)
  then show ?thesis
    by (simp add: set_cell_def Some)
qed

lemma rect_cell_at:
  assumes "rect_grid w h grid" "of_int \<lfloor>cx\<rfloor> = cx" "0 \<le> cx" "cx < w"
    "of_int \<lfloor>cy\<rfloor> = cy" "0 \<le> cy" "cy < h"
  shows "cell_at grid (Fin cx, Fin cy) \<noteq> None"
proof -
  have h: "h = real (length grid)" and rows: "list_all (\<lambda>row. real (length row) = w) grid"
    using assms(1) by (simp_all add: rect_grid_def)
  have n: "nat \<lfloor>cy\<rfloor> < length grid" using assms(6,7) h by linarith
  have g: "array_get grid (Fin cy) = Some (grid ! nat \<lfloor>cy\<rfloor>)"
    using assms(5,6,7) h by (simp add: array_get_def)
  have "real (length (grid ! nat \<lfloor>cy\<rfloor>)) = w"
    using rows n by (simp add: list_all_length)
  then have "array_get (grid ! nat \<lfloor>cy\<rfloor>) (Fin cx) \<noteq> None"
    using assms(2,3,4) by (simp add: array_get_def)
  then show ?thesis by (simp add: cell_at_def g)
qed

lemma int_shift:
  fixes c d :: real
  assumes "of_int \<lfloor>c\<rfloor> = c"
  shows "of_int \<lfloor>c + sgn d\<rfloor> = c + sgn d"
proof -
  obtain n :: int where n: "c = of_int n" using assms by metis
  have "sgn d = 1 \<or> sgn d = 0 \<or> sgn d = - 1" by (auto simp add: sgn_real_def)
  then show ?thesis
  proof (elim disjE)
    assume "sgn d = 1"
    then have "c + sgn d = of_int (n + 1)" using n by simp
    then show ?thesis by (simp only: floor_of_int)
  next
    assume "sgn d = 0"
    then show ?thesis using assms by simp
  next
    assume "sgn d = - 1"
    then have "c + sgn d = of_int (n - 1)" using n by simp
    then show ?thesis by (simp only: floor_of_int)
  qed
qed

lemma interact_cases:
  fixes color :: "string option"
  assumes ok: "cell_ok c" and d: "direction = (Fin dx, Fin dy)" and n: "axis_vec nrm"
    and st: "(dx = 0 \<and> dy = 0 \<and> nrm = (Fin 0, Fin 0) \<and> is_glass c)
             \<or> ((dx \<noteq> 0 \<or> dy \<noteq> 0) \<and> (\<exists>px py. start = (Fin px, Fin py)))"
  defines "r \<equiv> interact c start direction nrm color"
  shows "cell_ok (snd r) \<and> (is_glass c \<longrightarrow> snd r = c) \<and> length (fst (fst r)) \<le> 101
       \<and> (cell_knows color c \<longrightarrow> cell_knows color (snd r))
       \<and> (snd (fst r)
          \<or> (fst (fst r) = [] \<and> (dx \<noteq> 0 \<or> dy \<noteq> 0))
          \<or> (fst (fst r) \<noteq> []
              \<and> (good_seg (last (fst (fst r)))
                 \<or> (seg_direction (last (fst (fst r))) = (Fin 0, Fin 0) \<and> is_glass c)
                 \<or> (seg_direction (last (fst (fst r))) = (NaN, NaN) \<and> \<not> cell_knows color c))))"
proof (cases c)
  case EmptyCell
  then show ?thesis using st by (simp add: r_def BaseCell_interact_def)
next
  case (BlockCell x2)
  then show ?thesis using st by (simp add: r_def BlockCell_interact_def)
next
  case (TargetCell x3)
  then show ?thesis by (simp add: r_def TargetCell_interact_def)
next
  case (CrossCell x41 x42)
  then show ?thesis using st cross_cases[of x41 x42 start direction]
    by (auto simp add: r_def)
next
  case (GlassBlockCell ri)
  from n obtain na nb where nn: "nrm = (Fin na, Fin nb)" unfolding axis_vec_def by blast
  have "(dx = 0 \<and> dy = 0 \<and> na = 0 \<and> nb = 0) \<or> (\<exists>px py. start = (Fin px, Fin py))"
    using st nn by auto
  from glass_interact_ok[OF ok[unfolded GlassBlockCell] d nn this, of color]
  obtain segs where s: "GlassBlockCell_interact ri start direction nrm color = (segs, False)"
    "segs \<noteq> []" "length segs \<le> 101"
    "(seg_direction (last segs) = (NaN, NaN) \<and> map_of ri (property_key color) = None)
     \<or> glass_inv (seg_start (last segs)) (seg_direction (last segs))"
    by blast
  from s(4) glass_inv_cases[of "last segs"]
  have "good_seg (last segs) \<or> seg_direction (last segs) = (Fin 0, Fin 0)
        \<or> (seg_direction (last segs) = (NaN, NaN) \<and> \<not> cell_knows color c)"
    unfolding GlassBlockCell by auto
  then show ?thesis using s(1,2,3) ok
    by (auto simp add: r_def GlassBlockCell)
next
  case FixedMirrorCell
  from n obtain na nb where nn: "nrm = (Fin na, Fin nb)" "na * na + nb * nb = 1 \<or> (na = 0 \<and> nb = 0)"
    unfolding axis_vec_def by blast
  from st FixedMirrorCell obtain px py where g: "dx \<noteq> 0 \<or> dy \<noteq> 0" "start = (Fin px, Fin py)" by auto
  from reflect_nonzero[OF nn(2) g(1)] show ?thesis
    by (auto simp add: r_def FixedMirrorCell FixedMirrorCell_interact_def d nn(1) g(2) good_seg_def)
next
  case (RotatableMirrorCell rot)
  from st RotatableMirrorCell obtain px py where g: "dx \<noteq> 0 \<or> dy \<noteq> 0" "start = (Fin px, Fin py)" by auto
  from rot_cases[OF g(1), of rot px py] show ?thesis
    using g(1) by (auto simp add: r_def RotatableMirrorCell d g(2))
qed

lemma advance_zero:
  assumes "t_d st2 = (Fin 0, Fin 0)" "t_c st2 = (Fin cx, Fin cy)"
  shows "(\<exists>sf. advance W H st2 = Inl (Inr sf) \<and> interactionCount sf = interactionCount st2)
       \<or> (\<exists>st3. advance W H st2 = Inr st3 \<and> interactionCount st3 = interactionCount st2
             \<and> t_d st3 = (Fin 0, Fin 0) \<and> t_normal st3 = (Fin 0, Fin 0) \<and> t_c st3 = t_c st2
             \<and> t_grid st3 = t_grid st2)"
  by (simp add: advance_def assms split_beta Let_def strict_neq_def strict_eq_def)

lemma advance_NaN:
  assumes "t_d st2 = (NaN, NaN)"
  shows "(\<exists>sf. advance W H st2 = Inl (Inr sf) \<and> interactionCount sf = interactionCount st2)
       \<or> (\<exists>st3. advance W H st2 = Inr st3 \<and> interactionCount st3 = interactionCount st2
             \<and> snd (t_c st3) = NaN \<and> t_grid st3 = t_grid st2)"
  by (simp add: advance_def assms split_beta Let_def strict_neq_def strict_eq_def)

lemma pot_step:
  fixes P :: real
  assumes "0 \<le> P - 1"
  shows "nat \<lfloor>P - 1\<rfloor> < nat \<lfloor>P\<rfloor>"
proof -
  have "\<lfloor>P - 1\<rfloor> = \<lfloor>P\<rfloor> - 1" by simp
  moreover have "0 \<le> \<lfloor>P - 1\<rfloor>" using assms by simp
  ultimately show ?thesis by linarith
qed

lemma axis_vec_sgn:
  "a \<noteq> 0 \<Longrightarrow> axis_vec (Fin (- sgn a), Fin 0)" "a \<noteq> 0 \<Longrightarrow> axis_vec (Fin 0, Fin (- sgn (a::real)))"
  by (auto simp add: axis_vec_def sgn_real_def)

lemma advance_good:
  assumes d: "t_d st2 = (Fin dx, Fin dy)" "dx \<noteq> 0 \<or> dy \<noteq> 0"
    and s: "t_s st2 = (Fin sx, Fin sy)" and c: "t_c st2 = (Fin cx, Fin cy)"
  shows "(\<exists>sf. advance (Fin w) (Fin h) st2 = Inl (Inr sf) \<and> interactionCount sf = interactionCount st2)
       \<or> (\<exists>st3. advance (Fin w) (Fin h) st2 = Inr st3 \<and> interactionCount st3 = interactionCount st2
            \<and> t_d st3 = t_d st2 \<and> t_s st3 = t_s st2 \<and> t_grid st3 = t_grid st2
            \<and> (\<exists>x y. t_p st3 = (Fin x, Fin y)) \<and> axis_vec (t_normal st3)
            \<and> pot w h st3 < pot w h st2
            \<and> (\<exists>cx' cy'. t_c st3 = (Fin cx', Fin cy') \<and> 0 \<le> cx' \<and> cx' < w \<and> 0 \<le> cy' \<and> cy' < h
                 \<and> (of_int \<lfloor>cx\<rfloor> = cx \<longrightarrow> of_int \<lfloor>cx'\<rfloor> = cx')
                 \<and> (of_int \<lfloor>cy\<rfloor> = cy \<longrightarrow> of_int \<lfloor>cy'\<rfloor> = cy')))"
proof -
  define tv where "tv = (if dx \<noteq> 0 then Fin (((if 0 < dx then cx + 1 else cx) - sx) / dx) else PInf)"
  define th where "th = (if dy \<noteq> 0 then Fin (((if 0 < dy then cy + 1 else cy) - sy) / dy) else PInf)"
  define isV where "isV = (tv < th)"
  define t where "t = (if isV then tv else th)"
  define cx' where "cx' = (if isV then cx + sgn dx else cx)"
  define cy' where "cy' = (if isV then cy else cy + sgn dy)"
  define normal' where "normal' = (if isV then (Fin (- sgn dx), Fin 0) else (Fin 0, Fin (- sgn dy)))"
  define st3 where "st3 = st2\<lparr>t_c := (Fin cx', Fin cy'), t_p := (Fin sx + Fin dx * t, Fin sy + Fin dy * t),
       t_normal := normal'\<rparr>"
  have unf: "advance (Fin w) (Fin h) st2 =
      (if cx' < 0 \<or> w \<le> cx' \<or> cy' < 0 \<or> h \<le> cy'
       then Inl (Inr (st3\<lparr>t_path := t_path st3 @ [(Fin sx + Fin dx * t, Fin sy + Fin dy * t)]\<rparr>))
       else Inr st3)"
    unfolding st3_def normal'_def cx'_def cy'_def t_def isV_def tv_def th_def
    by (simp add: advance_def d s c Let_def strict_neq_def strict_eq_def)
  have v: "dx \<noteq> 0" if "isV"
    using that unfolding isV_def tv_def th_def by (auto split: if_splits)
  have nv: "dy \<noteq> 0" if "\<not> isV"
    using that d(2) unfolding isV_def tv_def th_def by (auto split: if_splits)
  have tfin: "\<exists>a. t = Fin a"
    using v nv unfolding t_def tv_def th_def by (cases isV) auto
  then obtain a where a: "t = Fin a" by blast
  have ax: "axis_vec normal'"
    using v nv axis_vec_sgn unfolding normal'_def by (cases isV) auto
  show ?thesis
  proof (cases "cx' < 0 \<or> w \<le> cx' \<or> cy' < 0 \<or> h \<le> cy'")
    case True
    then show ?thesis unfolding unf by (simp add: st3_def)
  next
    case False
    then have b: "0 \<le> cx'" "cx' < w" "0 \<le> cy'" "cy' < h" by auto
    define fx where "fx = (\<lambda>u::real. if 0 < dx then w - u else if dx < 0 then u + 1 else 0)"
    define fy where "fy = (\<lambda>u::real. if 0 < dy then h - u else if dy < 0 then u + 1 else 0)"
    have p2: "pot w h st2 = nat \<lfloor>fx cx + fy cy\<rfloor>"
      by (simp add: pot_def d c fx_def fy_def)
    have p3: "pot w h st3 = nat \<lfloor>fx cx' + fy cy'\<rfloor>"
      by (simp add: pot_def st3_def d fx_def fy_def)
    have nn: "0 \<le> fx cx'" "0 \<le> fy cy'"
      using b by (auto simp add: fx_def fy_def)
    have dec: "fx cx' + fy cy' = fx cx + fy cy - 1"
    proof (cases isV)
      case True
      then show ?thesis using v[OF True] by (auto simp add: cx'_def cy'_def fx_def sgn_real_def)
    next
      case False
      then show ?thesis using nv[OF False] by (auto simp add: cx'_def cy'_def fy_def sgn_real_def)
    qed
    have "0 \<le> fx cx + fy cy - 1" using nn dec by linarith
    from pot_step[OF this] have "pot w h st3 < pot w h st2"
      unfolding p2 p3 dec .
    moreover have "\<exists>x y. t_p st3 = (Fin x, Fin y)" by (simp add: st3_def a)
    moreover have "of_int \<lfloor>cx\<rfloor> = cx \<longrightarrow> of_int \<lfloor>cx'\<rfloor> = cx'"
      unfolding cx'_def using int_shift[of cx dx] by simp
    moreover have "of_int \<lfloor>cy\<rfloor> = cy \<longrightarrow> of_int \<lfloor>cy'\<rfloor> = cy'"
      unfolding cy'_def using int_shift[of cy dy] by simp
    ultimately show ?thesis unfolding unf using False ax b
      by (simp add: st3_def)
  qed
qed

lemma pot_cong:
  "t_d a = t_d b \<Longrightarrow> t_c a = t_c b \<Longrightarrow> pot w h a = pot w h b"
  by (simp add: pot_def)

lemma trackStep_cases:
  assumes inv: "trace_inv st"
  shows "(\<exists>r. trackStep (Fin w) (Fin h) color st = Inl r
            \<and> (\<forall>sf. r = Inr sf \<longrightarrow> interactionCount sf \<le> interactionCount st + 101)
            \<and> (in_grid w h color st \<longrightarrow> (\<exists>sf. r = Inr sf)))
       \<or> (\<exists>st'. trackStep (Fin w) (Fin h) color st = Inr st'
            \<and> interactionCount st' \<le> interactionCount st + 101
            \<and> (in_grid w h color st \<longrightarrow> in_grid w h color st')
            \<and> (cell_at (t_grid st') (t_c st') = None
               \<or> (trace_inv st'
                  \<and> (interactionCount st < interactionCount st'
                     \<or> (interactionCount st' = interactionCount st \<and> pot w h st' < pot w h st)))))"
proof (cases "cell_at (t_grid st) (t_c st)")
  case None
  then show ?thesis by (simp add: trackStep_alt in_grid_def)
next
  case (Some cell)
  from cell_at_finite[OF Some] obtain cx cy where c: "t_c st = (Fin cx, Fin cy)"
    and ci: "of_int \<lfloor>cx\<rfloor> = cx" "of_int \<lfloor>cy\<rfloor> = cy" by blast
  from inv have gok: "grid_ok (t_grid st)" and ax: "axis_vec (t_normal st)"
    unfolding trace_inv_def by blast+
  from inv obtain dx dy where d: "t_d st = (Fin dx, Fin dy)"
    and dis: "(dx = 0 \<and> dy = 0 \<and> t_normal st = (Fin 0, Fin 0)
             \<and> (\<forall>c. cell_at (t_grid st) (t_c st) = Some c \<longrightarrow> is_glass c))
          \<or> ((dx \<noteq> 0 \<or> dy \<noteq> 0) \<and> (\<exists>sx sy. t_s st = (Fin sx, Fin sy))
               \<and> (\<exists>x y. t_p st = (Fin x, Fin y)))"
    unfolding trace_inv_def by blast
  have cok: "cell_ok cell" by (rule cell_at_ok[OF gok Some])
  define start where "start = (fst (t_p st) - fst (t_c st) - Fin 0.5, snd (t_p st) - snd (t_c st) - Fin 0.5)"
  define r where "r = interact cell start (t_d st) (t_normal st) color"
  define segs where "segs = fst (fst r)"
  define st1 where "st1 = st\<lparr>t_grid := set_cell (t_grid st) (snd (t_c st)) (fst (t_c st)) (snd r)\<rparr>"
  define st2 where "st2 = foldl add_segment st1 segs"
  have unf: "trackStep (Fin w) (Fin h) color st
      = (if snd (fst r) then Inl (Inr st2) else advance (Fin w) (Fin h) st2)"
    by (simp add: trackStep_alt Some Let_def r_def start_def st2_def st1_def segs_def)
  have pre: "(dx = 0 \<and> dy = 0 \<and> t_normal st = (Fin 0, Fin 0) \<and> is_glass cell)
             \<or> ((dx \<noteq> 0 \<or> dy \<noteq> 0) \<and> (\<exists>px py. start = (Fin px, Fin py)))"
    using dis Some c by (auto simp add: start_def)
  from interact_cases[OF cok d ax pre, of color, folded r_def]
  have r1: "cell_ok (snd r)" and r2: "is_glass cell \<longrightarrow> snd r = cell" and r3: "length segs \<le> 101"
    and r5: "cell_knows color cell \<longrightarrow> cell_knows color (snd r)"
    and r4: "snd (fst r)
          \<or> (segs = [] \<and> (dx \<noteq> 0 \<or> dy \<noteq> 0))
          \<or> (segs \<noteq> []
              \<and> (good_seg (last segs)
                 \<or> (seg_direction (last segs) = (Fin 0, Fin 0) \<and> is_glass cell)
                 \<or> (seg_direction (last segs) = (NaN, NaN) \<and> \<not> cell_knows color cell)))"
    unfolding segs_def by blast+
  have cnt2: "interactionCount st2 = interactionCount st + length segs"
    by (simp add: st2_def st1_def)
  have c2: "t_c st2 = (Fin cx, Fin cy)" by (simp add: st2_def st1_def c)
  have g2: "t_grid st2 = set_cell (t_grid st) (Fin cy) (Fin cx) (snd r)"
    by (simp add: st2_def st1_def c)
  have gok2: "grid_ok (t_grid st2)" unfolding g2 by (rule grid_ok_set_cell[OF gok r1])
  have ig2: "rect_grid w h (t_grid st2) \<and> grid_knows color (t_grid st2)" if "in_grid w h color st"
  proof -
    from that have rg: "rect_grid w h (t_grid st)" and kn: "grid_knows color (t_grid st)"
      by (simp_all add: in_grid_def)
    from cell_at_knows[OF kn Some] r5 have "cell_knows color (snd r)" by simp
    from grid_knows_set_cell[OF kn this] rect_set_cell[OF rg] show ?thesis
      unfolding g2 by simp
  qed
  have knows: "cell_knows color cell" if "in_grid w h color st"
    using that cell_at_knows[OF _ Some] by (simp add: in_grid_def)
  show ?thesis
  proof (cases "snd (fst r)")
    case True
    then show ?thesis unfolding unf using cnt2 r3 by simp
  next
    case False
    with r4 consider
        (Pass) "segs = []" "dx \<noteq> 0 \<or> dy \<noteq> 0"
      | (Good) "segs \<noteq> []" "good_seg (last segs)"
      | (Zero) "segs \<noteq> []" "seg_direction (last segs) = (Fin 0, Fin 0)" "is_glass cell"
      | (Nan) "segs \<noteq> []" "seg_direction (last segs) = (NaN, NaN)" "\<not> cell_knows color cell"
      by blast
    then show ?thesis
    proof cases
      case Pass
      from dis Pass(2) obtain sx sy where s: "t_s st = (Fin sx, Fin sy)" by auto
      have d2: "t_d st2 = (Fin dx, Fin dy)" "t_s st2 = (Fin sx, Fin sy)"
        by (simp_all add: st2_def st1_def Pass(1) d s)
      have p2: "pot w h st2 = pot w h st"
        by (rule pot_cong) (simp_all add: d2 d c2 c)
      from advance_good[OF d2(1) Pass(2) d2(2) c2, of w h]
      consider (stop) sf where "advance (Fin w) (Fin h) st2 = Inl (Inr sf)"
          "interactionCount sf = interactionCount st2"
        | (go) st3 cx' cy' where "advance (Fin w) (Fin h) st2 = Inr st3"
          "interactionCount st3 = interactionCount st2" "t_d st3 = t_d st2" "t_s st3 = t_s st2"
          "t_grid st3 = t_grid st2" "\<exists>x y. t_p st3 = (Fin x, Fin y)" "axis_vec (t_normal st3)"
          "pot w h st3 < pot w h st2" "t_c st3 = (Fin cx', Fin cy')"
          "0 \<le> cx'" "cx' < w" "0 \<le> cy'" "cy' < h"
          "of_int \<lfloor>cx\<rfloor> = cx \<longrightarrow> of_int \<lfloor>cx'\<rfloor> = cx'"
          "of_int \<lfloor>cy\<rfloor> = cy \<longrightarrow> of_int \<lfloor>cy'\<rfloor> = cy'"
        by blast
      then show ?thesis
      proof cases
        case stop
        then show ?thesis unfolding unf using False cnt2 r3 by auto
      next
        case go
        have ti: "trace_inv st3"
          unfolding trace_inv_def using go(1-7) gok2 d2 Pass(2) by auto
        have "in_grid w h color st3" if "in_grid w h color st"
          using ig2[OF that] rect_cell_at[of w h "t_grid st3" cx' cy'] go ci
          by (simp add: in_grid_def)
        then show ?thesis unfolding unf using False go(1,2,8) ti cnt2 Pass(1) p2 by auto
      qed
    next
      case Good
      from Good(2) obtain ex ey fx fy where l: "seg_direction (last segs) = (Fin ex, Fin ey)"
        "ex \<noteq> 0 \<or> ey \<noteq> 0" "seg_start (last segs) = (Fin fx, Fin fy)"
        unfolding good_seg_def by blast
      have d2: "t_d st2 = (Fin ex, Fin ey)" "t_s st2 = (Fin (fx + cx + 0.5), Fin (fy + cy + 0.5))"
        unfolding st2_def foldl_add_segment_last[OF Good(1)] by (simp_all add: l st1_def c)
      have lt: "interactionCount st < interactionCount st2" using cnt2 Good(1) by simp
      from advance_good[OF d2(1) l(2) d2(2) c2, of w h]
      consider (stop) sf where "advance (Fin w) (Fin h) st2 = Inl (Inr sf)"
          "interactionCount sf = interactionCount st2"
        | (go) st3 cx' cy' where "advance (Fin w) (Fin h) st2 = Inr st3"
          "interactionCount st3 = interactionCount st2" "t_d st3 = t_d st2" "t_s st3 = t_s st2"
          "t_grid st3 = t_grid st2" "\<exists>x y. t_p st3 = (Fin x, Fin y)" "axis_vec (t_normal st3)"
          "pot w h st3 < pot w h st2" "t_c st3 = (Fin cx', Fin cy')"
          "0 \<le> cx'" "cx' < w" "0 \<le> cy'" "cy' < h"
          "of_int \<lfloor>cx\<rfloor> = cx \<longrightarrow> of_int \<lfloor>cx'\<rfloor> = cx'"
          "of_int \<lfloor>cy\<rfloor> = cy \<longrightarrow> of_int \<lfloor>cy'\<rfloor> = cy'"
        by blast
      then show ?thesis
      proof cases
        case stop
        then show ?thesis unfolding unf using False cnt2 r3 by auto
      next
        case go
        have ti: "trace_inv st3"
          unfolding trace_inv_def using go(1-7) gok2 d2 l(2) by auto
        have "in_grid w h color st3" if "in_grid w h color st"
          using ig2[OF that] rect_cell_at[of w h "t_grid st3" cx' cy'] go ci
          by (simp add: in_grid_def)
        then show ?thesis unfolding unf using False go(1,2) ti cnt2 r3 lt by auto
      qed
    next
      case Zero
      have d2: "t_d st2 = (Fin 0, Fin 0)"
        unfolding st2_def foldl_add_segment_last[OF Zero(1)] by (simp add: Zero(2))
      have lt: "interactionCount st < interactionCount st2" using cnt2 Zero(1) by simp
      from r2 Zero(3) have "snd r = cell" by simp
      then have at: "cell_at (t_grid st2) (Fin cx, Fin cy) = Some cell"
        unfolding g2 using cell_at_set_cell[OF Some[unfolded c], of cell] by simp
      from advance_zero[OF d2 c2, of "Fin w" "Fin h"]
      consider (stop) sf where "advance (Fin w) (Fin h) st2 = Inl (Inr sf)"
          "interactionCount sf = interactionCount st2"
        | (go) st3 where "advance (Fin w) (Fin h) st2 = Inr st3"
          "interactionCount st3 = interactionCount st2" "t_d st3 = (Fin 0, Fin 0)"
          "t_normal st3 = (Fin 0, Fin 0)" "t_c st3 = t_c st2" "t_grid st3 = t_grid st2"
        by blast
      then show ?thesis
      proof cases
        case stop
        then show ?thesis unfolding unf using False cnt2 r3 by auto
      next
        case go
        have ti: "trace_inv st3"
          unfolding trace_inv_def using go gok2 at c2 Zero(3)
          by (auto simp add: axis_vec_def)
        have "in_grid w h color st3" if "in_grid w h color st"
          using ig2[OF that] at go c2 by (simp add: in_grid_def)
        then show ?thesis unfolding unf using False go(1,2) ti cnt2 r3 lt by auto
      qed
    next
      case Nan
      have d2: "t_d st2 = (NaN, NaN)"
        unfolding st2_def foldl_add_segment_last[OF Nan(1)] by (simp add: Nan(2))
      have out: "\<not> in_grid w h color st" using knows Nan(3) by blast
      from advance_NaN[OF d2, of "Fin w" "Fin h"]
      consider (stop) sf where "advance (Fin w) (Fin h) st2 = Inl (Inr sf)"
          "interactionCount sf = interactionCount st2"
        | (go) st3 where "advance (Fin w) (Fin h) st2 = Inr st3"
          "interactionCount st3 = interactionCount st2" "snd (t_c st3) = NaN"
        by blast
      then show ?thesis
      proof cases
        case stop
        then show ?thesis unfolding unf using False cnt2 r3 by auto
      next
        case go
        have "cell_at (t_grid st3) (t_c st3) = None"
          using cell_at_NaN[of "t_grid st3" "fst (t_c st3)"] go(3)
          by (metis prod.collapse)
        then show ?thesis unfolding unf using False go(1,2) cnt2 r3 out by auto
      qed
    qed
  qed
qed

lemma trackLoop_terminates:
  assumes "trace_inv st" "interactionCount st \<le> 200"
  shows "\<exists>r. trackLoop (Fin w) (Fin h) color st = Some r
           \<and> (\<forall>sf. r = Inr sf \<longrightarrow> interactionCount sf \<le> 200)
           \<and> (in_grid w h color st \<longrightarrow> (\<exists>sf. r = Inr sf))"
  using assms
proof (induction st rule: wf_induct_rule[OF wf_measures[of "[\<lambda>st. 100 - interactionCount st, pot w h]"]])
  case (1 st)
  show ?case
  proof (cases "interactionCount st < 100")
    case False
    then show ?thesis using 1(3)
      by (subst trackLoop.simps) (simp add: MAX_INTERACTIONS_def)
  next
    case True
    have unf: "trackLoop (Fin w) (Fin h) color st =
        (case trackStep (Fin w) (Fin h) color st of Inl r \<Rightarrow> Some r
         | Inr st' \<Rightarrow> trackLoop (Fin w) (Fin h) color st')"
      using True by (subst trackLoop.simps) (simp add: MAX_INTERACTIONS_def)
    from trackStep_cases[OF 1(2), of w h color]
    consider (stop) r where "trackStep (Fin w) (Fin h) color st = Inl r"
        "\<forall>sf. r = Inr sf \<longrightarrow> interactionCount sf \<le> interactionCount st + 101"
        "in_grid w h color st \<longrightarrow> (\<exists>sf. r = Inr sf)"
      | (go) st' where "trackStep (Fin w) (Fin h) color st = Inr st'"
        "interactionCount st' \<le> interactionCount st + 101"
        "in_grid w h color st \<longrightarrow> in_grid w h color st'"
        "cell_at (t_grid st') (t_c st') = None
               \<or> (trace_inv st'
                  \<and> (interactionCount st < interactionCount st'
                     \<or> (interactionCount st' = interactionCount st \<and> pot w h st' < pot w h st)))"
      by blast
    then show ?thesis
    proof cases
      case stop
      then show ?thesis unfolding unf using True by auto
    next
      case go
      have le: "interactionCount st' \<le> 200" using go(2) True by simp
      from go(4) show ?thesis
      proof
        assume n: "cell_at (t_grid st') (t_c st') = None"
        have "trackLoop (Fin w) (Fin h) color st' =
            (if interactionCount st' < 100 then Some (Inl TypeError) else Some (Inr st'))"
          by (subst trackLoop.simps) (simp add: MAX_INTERACTIONS_def trackStep_alt n)
        moreover have "\<not> in_grid w h color st" using go(3) n by (auto simp add: in_grid_def)
        ultimately show ?thesis unfolding unf go(1) using le by simp
      next
        assume a: "trace_inv st'
                  \<and> (interactionCount st < interactionCount st'
                     \<or> (interactionCount st' = interactionCount st \<and> pot w h st' < pot w h st))"
        then have "(st', st) \<in> measures [\<lambda>st. 100 - interactionCount st, pot w h]"
          using True by auto
        from 1(1)[OF this] a le go(3) show ?thesis unfolding unf go(1) by auto
      qed
    qed
  qed
qed

subsection \<open>A beam between two mirrors\<close>

lemma red_index: "refractiveIndex default_refractiveIndices (Some ''red'') = Fin 1.5"
  by (simp add: refractiveIndex_def default_refractiveIndices_def property_key_def)

lemma glass_normal_incidence:
  assumes "refractiveIndex ri color = Fin 1.5" and "s = 1 \<or> s = - 1"
  shows "GlassBlockCell_interact ri (Fin px, Fin py) (Fin 0, Fin s) (Fin 0, Fin (- s)) color
           = ([\<lparr>seg_start = (Fin px, Fin py), seg_direction = (Fin 0, Fin s)\<rparr>,
               \<lparr>seg_start = (Fin px, Fin (s / 2)), seg_direction = (Fin 0, Fin s)\<rparr>], False)"
proof -
  have n2: "refractiveIndex ri color = Fin (3 / 2)" using assms(1) by simp
  have l: "glass_loop 100 = glass_loop (Suc 99)" by simp
  show ?thesis
    by (simp only: GlassBlockCell_interact_alt Let_def n2 refract_normal_incidence(1,2)[OF assms(2)]
         fst_conv snd_conv if_False l glass_loop_normal_incidence[OF assms(2)] append_Cons append_Nil)
qed

lemma col_cell:
  "cell_at column_grid (Fin 0, Fin 0) = Some FixedMirrorCell"
  "cell_at column_grid (Fin 0, Fin 1) = Some (GlassBlockCell default_refractiveIndices)"
  "cell_at column_grid (Fin 0, Fin 2) = Some FixedMirrorCell"
  by (simp_all add: cell_at_def column_grid_def array_get_def)

lemma col_set:
  "set_cell column_grid (Fin 0) (Fin 0) FixedMirrorCell = column_grid"
  "set_cell column_grid (Fin 1) (Fin 0) (GlassBlockCell default_refractiveIndices) = column_grid"
  "set_cell column_grid (Fin 2) (Fin 0) FixedMirrorCell = column_grid"
  by (simp_all add: set_cell_def column_grid_def array_get_def array_set_def)

lemma step_glass_down:
  "trackStep (Fin 1) (Fin 3) (Some ''red'') (column_state k 1 1 1 path)
     = Inr (column_state (k + 2) 2 2 1 (path @ [(Fin (1 / 2), Fin 1), (Fin (1 / 2), Fin 2)]))"
  using glass_normal_incidence[OF red_index, of 1 0 "- (1 / 2)"]
  by (simp add: trackStep_alt column_state_def col_cell col_set Let_def add_segment_def
       advance_def strict_neq_def strict_eq_def)

lemma step_glass_up:
  "trackStep (Fin 1) (Fin 3) (Some ''red'') (column_state k 1 2 (- 1) path)
     = Inr (column_state (k + 2) 0 1 (- 1) (path @ [(Fin (1 / 2), Fin 2), (Fin (1 / 2), Fin 1)]))"
  using glass_normal_incidence[OF red_index, of "- 1" 0 "1 / 2"]
  by (simp add: trackStep_alt column_state_def col_cell col_set Let_def add_segment_def
       advance_def strict_neq_def strict_eq_def)

lemma step_mirror_bottom:
  "trackStep (Fin 1) (Fin 3) (Some ''red'') (column_state k 2 2 1 path)
     = Inr (column_state (k + 1) 1 2 (- 1) (path @ [(Fin (1 / 2), Fin 2)]))"
  by (simp add: trackStep_alt column_state_def col_cell col_set Let_def add_segment_def
       advance_def strict_neq_def strict_eq_def FixedMirrorCell_interact_def reflect_Fin)

lemma step_mirror_top:
  "trackStep (Fin 1) (Fin 3) (Some ''red'') (column_state k 0 1 (- 1) path)
     = Inr (column_state (k + 1) 1 1 1 (path @ [(Fin (1 / 2), Fin 1)]))"
  by (simp add: trackStep_alt column_state_def col_cell col_set Let_def add_segment_def
       advance_def strict_neq_def strict_eq_def FixedMirrorCell_interact_def reflect_Fin)

lemma trackLoop_step:
  assumes "interactionCount st < 100" "trackStep W H c st = Inr st'"
  shows "trackLoop W H c st = trackLoop W H c st'"
  using assms by (subst trackLoop.simps) (simp add: MAX_INTERACTIONS_def)

lemma column_count [simp]: "interactionCount (column_state k cy y dy path) = k"
  by (simp add: column_state_def)

lemma column_cycle:
  assumes "k + 5 < 100"
  shows "\<exists>path'. trackLoop (Fin 1) (Fin 3) (Some ''red'') (column_state k 1 1 1 path)
     = trackLoop (Fin 1) (Fin 3) (Some ''red'') (column_state (k + 6) 1 1 1 path')"
proof -
  let ?p1 = "path @ [(Fin (1 / 2), Fin 1), (Fin (1 / 2), Fin 2)]"
  let ?p2 = "?p1 @ [(Fin (1 / 2), Fin 2)]"
  let ?p3 = "?p2 @ [(Fin (1 / 2), Fin 2), (Fin (1 / 2), Fin 1)]"
  let ?p4 = "?p3 @ [(Fin (1 / 2), Fin 1)]"
  have "trackLoop (Fin 1) (Fin 3) (Some ''red'') (column_state k 1 1 1 path)
      = trackLoop (Fin 1) (Fin 3) (Some ''red'') (column_state (k + 2) 2 2 1 ?p1)"
    using assms by (intro trackLoop_step[OF _ step_glass_down]) simp
  also have "\<dots> = trackLoop (Fin 1) (Fin 3) (Some ''red'') (column_state (k + 2 + 1) 1 2 (- 1) ?p2)"
    using assms by (intro trackLoop_step[OF _ step_mirror_bottom]) simp
  also have "\<dots> = trackLoop (Fin 1) (Fin 3) (Some ''red'') (column_state (k + 2 + 1 + 2) 0 1 (- 1) ?p3)"
    using assms by (intro trackLoop_step[OF _ step_glass_up]) simp
  also have "\<dots> = trackLoop (Fin 1) (Fin 3) (Some ''red'') (column_state (k + 2 + 1 + 2 + 1) 1 1 1 ?p4)"
    using assms by (intro trackLoop_step[OF _ step_mirror_top]) simp
  also have "k + 2 + 1 + 2 + 1 = k + 6" by simp
  finally show ?thesis by blast
qed

lemma column_cycles:
  assumes "k + 6 * n \<le> 99"
  shows "\<exists>path'. trackLoop (Fin 1) (Fin 3) (Some ''red'') (column_state k 1 1 1 path)
     = trackLoop (Fin 1) (Fin 3) (Some ''red'') (column_state (k + 6 * n) 1 1 1 path')"
  using assms
proof (induction n arbitrary: k path)
  case 0
  then show ?case by auto
next
  case (Suc n)
  then have "k + 5 < 100" by simp
  from column_cycle[OF this, of path] obtain p1 where
    p1: "trackLoop (Fin 1) (Fin 3) (Some ''red'') (column_state k 1 1 1 path)
     = trackLoop (Fin 1) (Fin 3) (Some ''red'') (column_state (k + 6) 1 1 1 p1)" by blast
  from Suc.prems have "k + 6 + 6 * n \<le> 99" by simp
  from Suc.IH[OF this, of p1] obtain p2 where
    "trackLoop (Fin 1) (Fin 3) (Some ''red'') (column_state (k + 6) 1 1 1 p1)
     = trackLoop (Fin 1) (Fin 3) (Some ''red'') (column_state (k + 6 + 6 * n) 1 1 1 p2)" by blast
  moreover have "k + 6 + 6 * n = k + 6 * Suc n" by simp
  ultimately show ?case using p1 by metis
qed

lemma column_final:
  "map_option (map_sum id interactionCount)
     (trackLoop (Fin 1) (Fin 3) (Some ''red'') (column_state 99 1 1 1 path)) = Some (Inr 101)"
proof -
  have "trackLoop (Fin 1) (Fin 3) (Some ''red'') (column_state 99 1 1 1 path)
      = trackLoop (Fin 1) (Fin 3) (Some ''red'')
          (column_state (99 + 2) 2 2 1 (path @ [(Fin (1 / 2), Fin 1), (Fin (1 / 2), Fin 2)]))"
    by (rule trackLoop_step[OF _ step_glass_down]) simp
  also have "\<dots> = Some (Inr (column_state (99 + 2) 2 2 1 (path @ [(Fin (1 / 2), Fin 1), (Fin (1 / 2), Fin 2)])))"
    by (subst trackLoop.simps) (simp add: MAX_INTERACTIONS_def)
  finally show ?thesis by simp
qed

text \<open>
  The final \<open>interactionCount\<close> is not bounded by \<open>MAX_INTERACTIONS\<close>: the budget is
  tested once per pass of the loop, while the count is incremented once per returned
  segment, and a glass block returns two segments or more. In the column grid the red
  beam bounces between the two mirrors through the glass block; the count is 99 when it
  enters the glass block for the last time, and 101 when the loop ends. (The run is
  the same in double arithmetic: its only inexact operations are the quotient
  \<open>1 / 1.5\<close> and its square; the square is multiplied by 0, and the error of the
  quotient cancels in the refracted direction.)
\<close>

proposition interaction_count_exceeds_budget:
  "map_option (map_sum id interactionCount)
     (trackBeam (Fin 1) (Fin 3) column_grid column_beam) = Some (Inr 101)"
proof -
  let ?p0 = "[(Fin (1 / 2), Fin (3 / 2))]"
  have i: "trackBeam (Fin 1) (Fin 3) column_grid column_beam
      = trackLoop (Fin 1) (Fin 3) (Some ''red'') (column_state 0 1 (3 / 2) (- 1) ?p0)"
    by (simp add: trackBeam_def init_trace_def column_beam_def column_state_def)
  have s1: "trackStep (Fin 1) (Fin 3) (Some ''red'') (column_state 0 1 (3 / 2) (- 1) ?p0)
     = Inr (column_state 2 0 1 (- 1) (?p0 @ [(Fin (1 / 2), Fin (3 / 2)), (Fin (1 / 2), Fin 1)]))"
    using glass_normal_incidence[OF red_index, of "- 1" 0 0]
    by (simp add: trackStep_alt column_state_def col_cell col_set Let_def add_segment_def
       advance_def strict_neq_def strict_eq_def)
  have "trackBeam (Fin 1) (Fin 3) column_grid column_beam
      = trackLoop (Fin 1) (Fin 3) (Some ''red'')
          (column_state 2 0 1 (- 1) (?p0 @ [(Fin (1 / 2), Fin (3 / 2)), (Fin (1 / 2), Fin 1)]))"
    unfolding i by (rule trackLoop_step[OF _ s1]) simp
  also have "\<dots> = trackLoop (Fin 1) (Fin 3) (Some ''red'')
          (column_state (2 + 1) 1 1 1 ((?p0 @ [(Fin (1 / 2), Fin (3 / 2)), (Fin (1 / 2), Fin 1)])
              @ [(Fin (1 / 2), Fin 1)]))"
    by (intro trackLoop_step[OF _ step_mirror_top]) simp
  finally have a: "trackBeam (Fin 1) (Fin 3) column_grid column_beam
      = trackLoop (Fin 1) (Fin 3) (Some ''red'')
          (column_state 3 1 1 1 (?p0 @ [(Fin (1 / 2), Fin (3 / 2)), (Fin (1 / 2), Fin 1)]
              @ [(Fin (1 / 2), Fin 1)]))"
    by simp
  from column_cycles[of 3 16] obtain p where
    "trackLoop (Fin 1) (Fin 3) (Some ''red'')
          (column_state 3 1 1 1 (?p0 @ [(Fin (1 / 2), Fin (3 / 2)), (Fin (1 / 2), Fin 1)]
              @ [(Fin (1 / 2), Fin 1)]))
     = trackLoop (Fin 1) (Fin 3) (Some ''red'') (column_state 99 1 1 1 p)"
    by auto
  with a column_final[of p] show ?thesis by simp
qed

text \<open>
  In the exact arithmetic of the first model the loop ends for every grid whose glass
  blocks have finite refractive indices other than 0 and every beam with finite start
  and finite direction other than \<open>(0,0)\<close>, with a final \<open>interactionCount\<close> of at
  most 200. The double arithmetic of the program does not inherit this: a quotient that
  overflows can stop the ray in its cell, as the last section shows.
\<close>

lemma trackBeam_terminates_exact:
  assumes "grid_ok grid" "beam_start b = (Fin sx, Fin sy)" "beam_direction b = (Fin dx, Fin dy)"
    "dx \<noteq> 0 \<or> dy \<noteq> 0"
  shows "\<exists>r. trackBeam (Fin w) (Fin h) grid b = Some r
           \<and> (\<forall>sf. r = Inr sf \<longrightarrow> interactionCount sf \<le> 200)
           \<and> (rect_grid w h grid \<and> grid_knows (beam_color b) grid
                \<and> cell_at grid (beam_cell b) \<noteq> None \<longrightarrow> (\<exists>sf. r = Inr sf))"
proof -
  have "trace_inv (init_trace grid b)"
    using assms by (auto simp add: trace_inv_def init_trace_def axis_vec_def)
  moreover have "interactionCount (init_trace grid b) \<le> 200" by (simp add: init_trace_def)
  ultimately have "\<exists>r. trackLoop (Fin w) (Fin h) (beam_color b) (init_trace grid b) = Some r
           \<and> (\<forall>sf. r = Inr sf \<longrightarrow> interactionCount sf \<le> 200)
           \<and> (in_grid w h (beam_color b) (init_trace grid b) \<longrightarrow> (\<exists>sf. r = Inr sf))"
    by (rule trackLoop_terminates)
  then show ?thesis
    unfolding trackBeam_def by (simp add: in_grid_def init_trace_def)
qed

section \<open>The tracer in double-precision arithmetic: termination\<close>

subsection \<open>Positions stay finite\<close>

lemma foldl_add_segment64_same [simp]:
  "t_c (foldl add_segment64 st segs) = t_c st"
  "t_p (foldl add_segment64 st segs) = t_p st"
  "t_normal (foldl add_segment64 st segs) = t_normal st"
  "t_grid (foldl add_segment64 st segs) = t_grid st"
  "interactionCount (foldl add_segment64 st segs) = interactionCount st + length segs"
  by (induction segs arbitrary: st; simp add: add_segment64_def split_beta Let_def)+

lemma trackStep64_alt:
  "trackStep64 rest gridWidth gridHeight color st =
     (case cell_at (t_grid st) (t_c st) of
        None \<Rightarrow> Inl (Inl TypeError)
      | Some cell \<Rightarrow>
          let r = interact64 rest cell
                    (sub64 (sub64 (fst (t_p st)) (fst (t_c st))) (Fin 0.5),
                     sub64 (sub64 (snd (t_p st)) (snd (t_c st))) (Fin 0.5))
                    (t_d st) (t_normal st) color;
              st2 = foldl add_segment64
                      (st\<lparr>t_grid := set_cell (t_grid st) (snd (t_c st)) (fst (t_c st)) (snd r)\<rparr>)
                      (fst (fst r))
          in if snd (fst r) then Inl (Inr st2) else advance64 gridWidth gridHeight st2)"
  by (simp add: trackStep64_def advance64_def cell_at_def split_beta Let_def split: option.splits)

lemma two_p_1024_970: "two_p 1024 = 2 ^ 54 * two_p 970"
  using two_p_add[of 54 970] by (simp add: two_p_nat[of 54])

lemma MAX_VALUE_970: "MAX_VALUE = 2 ^ 54 * two_p 970 - 2 * two_p 970"
  by (simp add: MAX_VALUE_def two_p_1024_970 two_p_970)

lemma two_p_970_large: "2 ^ 34 < two_p 970"
  using two_p_less[of 34 970] by (simp add: two_p_nat[of 34])

lemma MAX_VALUE_pos: "0 < MAX_VALUE"
  using two_p_970_large by (simp add: MAX_VALUE_970)

lemma rnd_near:
  assumes "\<bar>z\<bar> \<le> MAX_VALUE + 2 ^ 34"
  shows "\<exists>y. rnd z = Fin y \<and> \<bar>y - z\<bar> \<le> two_p 970 \<and> \<bar>y\<bar> \<le> MAX_VALUE"
  by (rule rnd_finite) (use assms two_p_970_large in \<open>simp add: MAX_VALUE_970 two_p_1024_970\<close>)

lemma rnd_small:
  assumes "\<bar>z\<bar> \<le> 2 ^ 34 + 4 * two_p 970"
  shows "\<exists>y. rnd z = Fin y \<and> \<bar>y - z\<bar> \<le> two_p 970 \<and> \<bar>y\<bar> \<le> MAX_VALUE"
  by (rule rnd_finite) (use assms two_p_970_large in \<open>simp add: MAX_VALUE_970 two_p_1024_970\<close>)

lemma local_pos64:
  assumes "\<bar>x\<bar> \<le> MAX_VALUE" "\<bar>c\<bar> \<le> 2 ^ 32"
  shows "\<exists>l. sub64 (sub64 (Fin x) (Fin c)) (Fin (1 / 2)) = Fin l \<and> \<bar>l\<bar> \<le> MAX_VALUE"
proof -
  have "\<bar>x - c\<bar> \<le> MAX_VALUE + 2 ^ 34" using assms by simp
  from rnd_near[OF this] obtain a where a: "rnd (x - c) = Fin a" "\<bar>a\<bar> \<le> MAX_VALUE" by blast
  have "\<bar>a - 1 / 2\<bar> \<le> MAX_VALUE + 2 ^ 34" using a(2) by simp
  from rnd_near[OF this] obtain l where l: "rnd (a - 1 / 2) = Fin l" "\<bar>l\<bar> \<le> MAX_VALUE" by blast
  show ?thesis using a l by (simp add: sub64_def)
qed

lemma global_pos64:
  assumes "\<bar>x\<bar> \<le> MAX_VALUE" "\<bar>c\<bar> \<le> 2 ^ 32"
  shows "\<exists>l. add64 (add64 (Fin x) (Fin c)) (Fin (1 / 2)) = Fin l \<and> \<bar>l\<bar> \<le> MAX_VALUE"
proof -
  have "\<bar>x + c\<bar> \<le> MAX_VALUE + 2 ^ 34" using assms by simp
  from rnd_near[OF this] obtain a where a: "rnd (x + c) = Fin a" "\<bar>a\<bar> \<le> MAX_VALUE" by blast
  have "\<bar>a + 1 / 2\<bar> \<le> MAX_VALUE + 2 ^ 34" using a(2) by simp
  from rnd_near[OF this] obtain l where l: "rnd (a + 1 / 2) = Fin l" "\<bar>l\<bar> \<le> MAX_VALUE" by blast
  show ?thesis using a l by (simp add: add64_def)
qed

text \<open>The ray parameter to the line \<open>n\<close> along an axis, and the point reached.\<close>

lemma travel64:
  assumes "\<bar>sx\<bar> \<le> MAX_VALUE" "\<bar>n\<bar> \<le> 2 ^ 33" "s = 1 \<or> s = - 1"
  shows "\<exists>t x'. div64 (sub64 (Fin n) (Fin sx)) (Fin s) = Fin t
            \<and> add64 (Fin sx) (mul64 (Fin s) (Fin t)) = Fin x' \<and> \<bar>x'\<bar> \<le> MAX_VALUE"
proof -
  have "\<bar>n - sx\<bar> \<le> MAX_VALUE + 2 ^ 34" using assms(1,2) by simp
  from rnd_near[OF this] obtain u where u: "rnd (n - sx) = Fin u" "\<bar>u - (n - sx)\<bar> \<le> two_p 970"
    "\<bar>u\<bar> \<le> MAX_VALUE" by blast
  have s0: "s \<noteq> 0" using assms(3) by auto
  have "\<bar>u / s\<bar> \<le> MAX_VALUE + 2 ^ 34" using u(3) assms(3) by auto
  from rnd_near[OF this] obtain t where t: "rnd (u / s) = Fin t" "\<bar>t - u / s\<bar> \<le> two_p 970"
    "\<bar>t\<bar> \<le> MAX_VALUE" by blast
  have "\<bar>s * t\<bar> \<le> MAX_VALUE + 2 ^ 34" using t(3) assms(3) by (auto simp add: abs_mult)
  from rnd_near[OF this] obtain w where w: "rnd (s * t) = Fin w" "\<bar>w - s * t\<bar> \<le> two_p 970"
    by blast
  have st: "\<bar>s * t - u\<bar> \<le> two_p 970" using t(2) assms(3) by auto
  have "\<bar>sx + w\<bar> \<le> \<bar>n\<bar> + 3 * two_p 970" using u(2) w(2) st by linarith
  then have "\<bar>sx + w\<bar> \<le> 2 ^ 34 + 4 * two_p 970" using assms(2) two_p_pos[of 970] by simp
  from rnd_small[OF this] obtain x' where x': "rnd (sx + w) = Fin x'" "\<bar>x'\<bar> \<le> MAX_VALUE" by blast
  show ?thesis
    using u(1) t(1) w(1) x' s0 by (simp add: div64_def sub64_def mul64_def add64_def)
qed

lemma idle64:
  assumes "\<bar>sy\<bar> \<le> MAX_VALUE"
  shows "\<exists>y'. add64 (Fin sy) (mul64 (Fin 0) (Fin t)) = Fin y' \<and> \<bar>y'\<bar> \<le> MAX_VALUE"
proof -
  have "\<bar>sy\<bar> \<le> MAX_VALUE + 2 ^ 34" using assms by simp
  from rnd_near[OF this] obtain y' where "rnd sy = Fin y'" "\<bar>y'\<bar> \<le> MAX_VALUE" by blast
  then show ?thesis by (simp add: add64_def mul64_def)
qed

lemma is_double_bounded:
  assumes "is_double x"
  shows "\<bar>x\<bar> \<le> MAX_VALUE"
proof -
  from rnd_id[OF assms] have r: "rnd x = Fin x" .
  from assms obtain m k :: int where x: "x = of_int m * two_p k"
    and m: "\<bar>m\<bar> < 2 ^ 53" and k: "k \<le> 971"
    unfolding is_double_def by blast
  have "\<bar>m\<bar> \<le> 2 ^ 53 - 1" using m by simp
  then have "(of_int \<bar>m\<bar> :: real) \<le> of_int (2 ^ 53 - 1)" by (simp only: of_int_le_iff)
  then have "of_int \<bar>m\<bar> * two_p k \<le> of_int (2 ^ 53 - 1) * two_p k"
    by (intro mult_right_mono) simp_all
  also have "\<dots> \<le> of_int (2 ^ 53 - 1) * two_p 971"
    using two_p_mono[OF k] by (intro mult_left_mono) simp_all
  finally show ?thesis
    by (simp add: x abs_mult MAX_VALUE_def two_p_1024 algebra_simps)
qed

lemma axis_reflect64:
  assumes "axis_dir d" "axis_dir n"
  shows "axis_dir (reflect64 d n)"
proof -
  have d1: "is_double 1" "is_double (- 1)" "is_double 0"
    using is_double_1 is_double_uminus[OF is_double_1] by simp_all
  have b: "\<bar>1 :: real\<bar> < two_p 1023" "\<bar>- 1 :: real\<bar> < two_p 1023" "\<bar>0 :: real\<bar> < two_p 1023"
    using one_less_two_p_1023 by simp_all
  note ry = reflect64_normal_y(1)
  note rx = reflect64_normal_x(1)
  from assms show ?thesis
    unfolding axis_dir_def
    by (elim disjE)
      (simp_all add: ry[OF d1(1) d1(3) b(3)] ry[OF d1(2) d1(3) b(3)] ry[OF d1(3) d1(1) b(1)]
         ry[OF d1(3) d1(2) b(2)] rx[OF d1(1) d1(3) b(1)] rx[OF d1(2) d1(3) b(2)]
         rx[OF d1(3) d1(1) b(3)] rx[OF d1(3) d1(2) b(3)])
qed

lemma list_all2_set_cell:
  assumes "list_all (list_all P) grid" "P c'"
  shows "list_all (list_all P) (set_cell grid cy cx c')"
proof (cases "array_get grid cy")
  case None
  then show ?thesis using assms by (simp add: set_cell_def)
next
  case (Some row)
  from array_get_Some[OF Some] obtain r where r: "cy = Fin r" "nat \<lfloor>r\<rfloor> < length grid" "row = grid ! nat \<lfloor>r\<rfloor>"
    by blast
  have "list_all P row" using assms(1) r(2,3) by (simp add: list_all_length)
  then have "list_all P (array_set row cx c')"
    using assms(2) by (cases cx) (simp_all add: array_set_def list_all_update)
  then have "list_all (list_all P) (array_set grid cy (array_set row cx c'))"
    using assms(1) by (simp add: r(1) array_set_def list_all_update)
  then show ?thesis
    by (simp add: set_cell_def Some)
qed

lemma small_set_cell:
  assumes "small_grid grid"
  shows "small_grid (set_cell grid cy cx c')"
proof (cases "array_get grid cy")
  case None
  then show ?thesis using assms by (simp add: set_cell_def)
next
  case (Some row)
  from array_get_Some[OF Some] obtain r where r: "cy = Fin r" "nat \<lfloor>r\<rfloor> < length grid" "row = grid ! nat \<lfloor>r\<rfloor>"
    by blast
  have "length row < 2 ^ 32"
    using assms r(2,3) by (simp add: small_grid_def list_all_length)
  then have "length (array_set row cx c') < 2 ^ 32"
    by (cases cx) (simp_all add: array_set_def)
  then have "small_grid (array_set grid cy (array_set row cx c'))"
    using assms by (simp add: r(1) array_set_def small_grid_def list_all_update)
  then show ?thesis
    by (simp add: set_cell_def Some)
qed

lemma cell_at_simple:
  assumes "simple_grid grid" "cell_at grid c = Some x"
  shows "simple_cell x"
proof -
  from assms(2) obtain row where row: "array_get grid (snd c) = Some row" "array_get row (fst c) = Some x"
    by (auto simp add: cell_at_def split: option.splits)
  from array_get_Some[OF row(1)] have "row \<in> set grid" by auto
  moreover from array_get_Some[OF row(2)] have "x \<in> set row" by auto
  ultimately show ?thesis using assms(1) by (auto simp add: simple_grid_def list_all_iff)
qed

lemma cell_at_small:
  assumes "small_grid grid" "cell_at grid c = Some x"
  shows "\<exists>i j :: int. c = (Fin (of_int i), Fin (of_int j)) \<and> 0 \<le> i \<and> i < 2 ^ 32 \<and> 0 \<le> j \<and> j < 2 ^ 32"
proof -
  from assms(2) obtain row where row: "array_get grid (snd c) = Some row" "array_get row (fst c) = Some x"
    by (auto simp add: cell_at_def split: option.splits)
  from array_get_Some[OF row(1)] obtain cy where cy: "snd c = Fin cy" "of_int \<lfloor>cy\<rfloor> = cy" "0 \<le> cy"
    "nat \<lfloor>cy\<rfloor> < length grid" "row = grid ! nat \<lfloor>cy\<rfloor>" by blast
  from array_get_Some[OF row(2)] obtain cx where cx: "fst c = Fin cx" "of_int \<lfloor>cx\<rfloor> = cx" "0 \<le> cx"
    "nat \<lfloor>cx\<rfloor> < length row" by blast
  have "length grid < 2 ^ 32" "length row < 2 ^ 32"
    using assms(1) cy(4,5) by (simp_all add: small_grid_def list_all_length)
  then have "nat \<lfloor>cx\<rfloor> < 4294967296" "nat \<lfloor>cy\<rfloor> < 4294967296" using cx(4) cy(4) by simp_all
  then have "\<lfloor>cx\<rfloor> < 4294967296" "\<lfloor>cy\<rfloor> < 4294967296" by linarith+
  then have "\<lfloor>cx\<rfloor> < 2 ^ 32" "\<lfloor>cy\<rfloor> < 2 ^ 32" by simp_all
  moreover have "0 \<le> \<lfloor>cx\<rfloor>" "0 \<le> \<lfloor>cy\<rfloor>" using cx(3) cy(3) by simp_all
  moreover have "c = (Fin cx, Fin cy)"
    using cx(1) cy(1) by (cases c) simp
  then have "c = (Fin (of_int \<lfloor>cx\<rfloor>), Fin (of_int \<lfloor>cy\<rfloor>))"
    by (simp only: cx(2) cy(2))
  ultimately show ?thesis by blast
qed

subsection \<open>One pass of the loop\<close>

lemma add64_int:
  assumes "\<bar>i\<bar> < 2 ^ 33" "s = 1 \<or> s = - 1 \<or> s = 0"
  shows "add64 (Fin (of_int i)) (Fin s) = Fin (of_int i + s)"
proof -
  from assms(2) obtain k :: int where k: "s = of_int k" "\<bar>k\<bar> \<le> 1"
    by (elim disjE) (auto intro: that[of 1] that[of "- 1"] that[of 0])
  have "\<bar>i + k\<bar> < 2 ^ 53" using assms(1) k(2) by simp
  from rnd_id[OF is_double_int[OF this]] show ?thesis
    by (simp add: add64_def k(1))
qed

lemma PInf_not_less [simp]: "(PInf < x) = False"
  by (cases x) simp_all

lemma advance64_x:
  assumes d: "t_d st2 = (Fin s, Fin 0)" "s = 1 \<or> s = - 1"
    and s: "t_s st2 = (Fin sx, Fin sy)" "\<bar>sx\<bar> \<le> MAX_VALUE" "\<bar>sy\<bar> \<le> MAX_VALUE"
    and c: "t_c st2 = (Fin (of_int i), cy)" "0 \<le> i" "i < 2 ^ 32"
  shows "\<exists>x' y'. \<bar>x'\<bar> \<le> MAX_VALUE \<and> \<bar>y'\<bar> \<le> MAX_VALUE
           \<and> advance64 W H st2 =
               (let st3 = st2\<lparr>t_c := (Fin (of_int i + s), cy), t_p := (Fin x', Fin y'),
                               t_normal := (Fin (- s), Fin 0)\<rparr>
                in if Fin (of_int i + s) < Fin 0 \<or> W \<le> Fin (of_int i + s) \<or> cy < Fin 0 \<or> H \<le> cy
                   then Inl (Inr (st3\<lparr>t_path := t_path st3 @ [(Fin x', Fin y')]\<rparr>))
                   else Inr st3)"
proof -
  define n :: real where "n = (if 0 < s then of_int i + 1 else of_int i)"
  have i: "\<bar>i\<bar> < 2 ^ 33" using c(2,3) by simp
  have "\<bar>real_of_int i\<bar> \<le> 2 ^ 32"
  proof -
    have "\<bar>i\<bar> \<le> 2 ^ 32" using c(2,3) by simp
    then have "real_of_int \<bar>i\<bar> \<le> of_int (2 ^ 32)" by (simp only: of_int_le_iff)
    then show ?thesis by simp
  qed
  then have n: "\<bar>n\<bar> \<le> 2 ^ 33" unfolding n_def by auto
  from travel64[OF s(2) n d(2)] obtain t x' where
    t: "div64 (sub64 (Fin n) (Fin sx)) (Fin s) = Fin t"
    and x': "add64 (Fin sx) (mul64 (Fin s) (Fin t)) = Fin x'" "\<bar>x'\<bar> \<le> MAX_VALUE" by blast
  from idle64[OF s(3), of t] obtain y' where
    y': "add64 (Fin sy) (mul64 (Fin 0) (Fin t)) = Fin y'" "\<bar>y'\<bar> \<le> MAX_VALUE" by blast
  have a1: "add64 (Fin (of_int i)) (Fin 1) = Fin (of_int i + 1)"
    by (rule add64_int[OF i]) simp
  have a2: "add64 (Fin (of_int i)) (Fin s) = Fin (of_int i + s)"
    by (rule add64_int[OF i]) (use d(2) in auto)
  have sg: "sgn s = s" "s \<noteq> 0" using d(2) by auto
  have tv: "0 < s \<Longrightarrow> div64 (sub64 (Fin (of_int i + 1)) (Fin sx)) (Fin s) = Fin t"
    "\<not> 0 < s \<Longrightarrow> div64 (sub64 (Fin (of_int i)) (Fin sx)) (Fin s) = Fin t"
    using t unfolding n_def by simp_all
  have "advance64 W H st2 =
               (let st3 = st2\<lparr>t_c := (Fin (of_int i + s), cy), t_p := (Fin x', Fin y'),
                               t_normal := (Fin (- s), Fin 0)\<rparr>
                in if Fin (of_int i + s) < Fin 0 \<or> W \<le> Fin (of_int i + s) \<or> cy < Fin 0 \<or> H \<le> cy
                   then Inl (Inr (st3\<lparr>t_path := t_path st3 @ [(Fin x', Fin y')]\<rparr>))
                   else Inr st3)"
    by (simp add: advance64_def d(1) s(1) c(1) Let_def strict_neq_def strict_eq_def a1 a2 sg tv
        x'(1) y'(1))
  then show ?thesis using x'(2) y'(2) by blast
qed

lemma advance64_y:
  assumes d: "t_d st2 = (Fin 0, Fin s)" "s = 1 \<or> s = - 1"
    and s: "t_s st2 = (Fin sx, Fin sy)" "\<bar>sx\<bar> \<le> MAX_VALUE" "\<bar>sy\<bar> \<le> MAX_VALUE"
    and c: "t_c st2 = (cx, Fin (of_int j))" "0 \<le> j" "j < 2 ^ 32"
  shows "\<exists>x' y'. \<bar>x'\<bar> \<le> MAX_VALUE \<and> \<bar>y'\<bar> \<le> MAX_VALUE
           \<and> advance64 W H st2 =
               (let st3 = st2\<lparr>t_c := (cx, Fin (of_int j + s)), t_p := (Fin x', Fin y'),
                               t_normal := (Fin 0, Fin (- s))\<rparr>
                in if cx < Fin 0 \<or> W \<le> cx \<or> Fin (of_int j + s) < Fin 0 \<or> H \<le> Fin (of_int j + s)
                   then Inl (Inr (st3\<lparr>t_path := t_path st3 @ [(Fin x', Fin y')]\<rparr>))
                   else Inr st3)"
proof -
  define n :: real where "n = (if 0 < s then of_int j + 1 else of_int j)"
  have j: "\<bar>j\<bar> < 2 ^ 33" using c(2,3) by simp
  have "\<bar>real_of_int j\<bar> \<le> 2 ^ 32"
  proof -
    have "\<bar>j\<bar> \<le> 2 ^ 32" using c(2,3) by simp
    then have "real_of_int \<bar>j\<bar> \<le> of_int (2 ^ 32)" by (simp only: of_int_le_iff)
    then show ?thesis by simp
  qed
  then have n: "\<bar>n\<bar> \<le> 2 ^ 33" unfolding n_def by auto
  from travel64[OF s(3) n d(2)] obtain t y' where
    t: "div64 (sub64 (Fin n) (Fin sy)) (Fin s) = Fin t"
    and y': "add64 (Fin sy) (mul64 (Fin s) (Fin t)) = Fin y'" "\<bar>y'\<bar> \<le> MAX_VALUE" by blast
  from idle64[OF s(2), of t] obtain x' where
    x': "add64 (Fin sx) (mul64 (Fin 0) (Fin t)) = Fin x'" "\<bar>x'\<bar> \<le> MAX_VALUE" by blast
  have a1: "add64 (Fin (of_int j)) (Fin 1) = Fin (of_int j + 1)"
    by (rule add64_int[OF j]) simp
  have a2: "add64 (Fin (of_int j)) (Fin s) = Fin (of_int j + s)"
    by (rule add64_int[OF j]) (use d(2) in auto)
  have sg: "sgn s = s" "s \<noteq> 0" using d(2) by auto
  have tv: "0 < s \<Longrightarrow> div64 (sub64 (Fin (of_int j + 1)) (Fin sy)) (Fin s) = Fin t"
    "\<not> 0 < s \<Longrightarrow> div64 (sub64 (Fin (of_int j)) (Fin sy)) (Fin s) = Fin t"
    using t unfolding n_def by simp_all
  have "advance64 W H st2 =
               (let st3 = st2\<lparr>t_c := (cx, Fin (of_int j + s)), t_p := (Fin x', Fin y'),
                               t_normal := (Fin 0, Fin (- s))\<rparr>
                in if cx < Fin 0 \<or> W \<le> cx \<or> Fin (of_int j + s) < Fin 0 \<or> H \<le> Fin (of_int j + s)
                   then Inl (Inr (st3\<lparr>t_path := t_path st3 @ [(Fin x', Fin y')]\<rparr>))
                   else Inr st3)"
    by (simp add: advance64_def d(1) s(1) c(1) Let_def strict_neq_def strict_eq_def a1 a2 sg tv
        x'(1) y'(1))
  then show ?thesis using x'(2) y'(2) by blast
qed

lemma of_int_shift:
  assumes "s = 1 \<or> s = - 1"
  shows "of_int \<lfloor>real_of_int i + s\<rfloor> = real_of_int i + s"
proof -
  from assms obtain k :: int where "s = of_int k" by (auto intro: that[of 1] that[of "- 1"])
  then have "real_of_int i + s = of_int (i + k)" by simp
  then show ?thesis by (simp only: floor_of_int)
qed

lemma advance64_axis:
  assumes d: "axis_dir (t_d st2)" and s: "bounded_pos (t_s st2)"
    and c: "t_c st2 = (Fin (of_int i), Fin (of_int j))" "0 \<le> i" "i < 2 ^ 32" "0 \<le> j" "j < 2 ^ 32"
  shows "(\<exists>sf. advance64 (Fin w) (Fin h) st2 = Inl (Inr sf) \<and> interactionCount sf = interactionCount st2)
       \<or> (\<exists>st3. advance64 (Fin w) (Fin h) st2 = Inr st3 \<and> interactionCount st3 = interactionCount st2
            \<and> t_d st3 = t_d st2 \<and> t_s st3 = t_s st2 \<and> t_grid st3 = t_grid st2
            \<and> bounded_pos (t_p st3) \<and> axis_dir (t_normal st3)
            \<and> pot w h st3 < pot w h st2
            \<and> (\<exists>cx' cy'. t_c st3 = (Fin cx', Fin cy') \<and> of_int \<lfloor>cx'\<rfloor> = cx' \<and> 0 \<le> cx' \<and> cx' < w
                 \<and> of_int \<lfloor>cy'\<rfloor> = cy' \<and> 0 \<le> cy' \<and> cy' < h))"
proof -
  from s obtain sx sy where sp: "t_s st2 = (Fin sx, Fin sy)" "\<bar>sx\<bar> \<le> MAX_VALUE" "\<bar>sy\<bar> \<le> MAX_VALUE"
    unfolding bounded_pos_def by blast
  from d consider (x) e where "t_d st2 = (Fin e, Fin 0)" "e = 1 \<or> e = - 1"
    | (y) e where "t_d st2 = (Fin 0, Fin e)" "e = 1 \<or> e = - 1"
    unfolding axis_dir_def by auto
  then show ?thesis
  proof cases
    case x
    from advance64_x[OF x sp c(1,2,3), of "Fin w" "Fin h"] obtain x' y' where
      b: "\<bar>x'\<bar> \<le> MAX_VALUE" "\<bar>y'\<bar> \<le> MAX_VALUE"
      and a: "advance64 (Fin w) (Fin h) st2 =
               (let st3 = st2\<lparr>t_c := (Fin (of_int i + e), Fin (of_int j)), t_p := (Fin x', Fin y'),
                               t_normal := (Fin (- e), Fin 0)\<rparr>
                in if Fin (of_int i + e) < Fin 0 \<or> Fin w \<le> Fin (of_int i + e)
                      \<or> Fin (of_int j) < Fin 0 \<or> Fin h \<le> Fin (of_int j)
                   then Inl (Inr (st3\<lparr>t_path := t_path st3 @ [(Fin x', Fin y')]\<rparr>))
                   else Inr st3)"
      by blast
    show ?thesis
    proof (cases "of_int i + e < 0 \<or> w \<le> of_int i + e \<or> real_of_int j < 0 \<or> h \<le> of_int j")
      case True
      then show ?thesis unfolding a by (simp add: Let_def)
    next
      case False
      then have r: "0 \<le> of_int i + e" "of_int i + e < w" "0 \<le> real_of_int j" "of_int j < h"
        by auto
      define st3 where "st3 = st2\<lparr>t_c := (Fin (of_int i + e), Fin (of_int j)),
          t_p := (Fin x', Fin y'), t_normal := (Fin (- e), Fin 0)\<rparr>"
      have a': "advance64 (Fin w) (Fin h) st2 = Inr st3"
        unfolding a st3_def using False by (simp add: Let_def)
      have "pot w h st3 < pot w h st2"
      proof -
        from x(2) show ?thesis
        proof
          assume e: "e = 1"
          have p2: "pot w h st2 = nat \<lfloor>w - of_int i\<rfloor>"
            by (simp add: pot_def x(1) c(1) e)
          have p3: "pot w h st3 = nat \<lfloor>w - (of_int i + 1)\<rfloor>"
            by (simp add: pot_def st3_def x(1) e)
          have eq: "w - (real_of_int i + 1) = w - of_int i - 1" by simp
          have "0 \<le> (w - of_int i) - 1" using r(2) e by simp
          from pot_step[OF this] show ?thesis unfolding p2 p3 eq .
        next
          assume e: "e = - 1"
          have p2: "pot w h st2 = nat \<lfloor>real_of_int i + 1\<rfloor>"
            by (simp add: pot_def x(1) c(1) e)
          have p3: "pot w h st3 = nat \<lfloor>real_of_int i + 1 - 1\<rfloor>"
            by (simp add: pot_def st3_def x(1) e)
          have "0 \<le> (of_int i + 1) - (1 :: real)" using c(2) by simp
          from pot_step[OF this] show ?thesis unfolding p2 p3 .
        qed
      qed
      moreover have "bounded_pos (t_p st3)" using b by (simp add: st3_def bounded_pos_def)
      moreover have "axis_dir (t_normal st3)" using x(2) by (auto simp add: st3_def axis_dir_def)
      moreover have "\<exists>cx' cy'. t_c st3 = (Fin cx', Fin cy') \<and> of_int \<lfloor>cx'\<rfloor> = cx' \<and> 0 \<le> cx' \<and> cx' < w
                 \<and> of_int \<lfloor>cy'\<rfloor> = cy' \<and> 0 \<le> cy' \<and> cy' < h"
      proof (intro exI conjI)
        show "t_c st3 = (Fin (of_int i + e), Fin (of_int j))" by (simp add: st3_def)
        show "of_int \<lfloor>real_of_int i + e\<rfloor> = real_of_int i + e" by (rule of_int_shift[OF x(2)])
        show "of_int \<lfloor>real_of_int j\<rfloor> = real_of_int j" by (simp only: floor_of_int)
      qed (use r in simp_all)
      ultimately show ?thesis unfolding a' by (simp add: st3_def)
    qed
  next
    case y
    from advance64_y[OF y sp c(1,4,5), of "Fin w" "Fin h"] obtain x' y' where
      b: "\<bar>x'\<bar> \<le> MAX_VALUE" "\<bar>y'\<bar> \<le> MAX_VALUE"
      and a: "advance64 (Fin w) (Fin h) st2 =
               (let st3 = st2\<lparr>t_c := (Fin (of_int i), Fin (of_int j + e)), t_p := (Fin x', Fin y'),
                               t_normal := (Fin 0, Fin (- e))\<rparr>
                in if Fin (of_int i) < Fin 0 \<or> Fin w \<le> Fin (of_int i)
                      \<or> Fin (of_int j + e) < Fin 0 \<or> Fin h \<le> Fin (of_int j + e)
                   then Inl (Inr (st3\<lparr>t_path := t_path st3 @ [(Fin x', Fin y')]\<rparr>))
                   else Inr st3)"
      by blast
    show ?thesis
    proof (cases "real_of_int i < 0 \<or> w \<le> of_int i \<or> of_int j + e < 0 \<or> h \<le> of_int j + e")
      case True
      then show ?thesis unfolding a by (simp add: Let_def)
    next
      case False
      then have r: "0 \<le> real_of_int i" "of_int i < w" "0 \<le> of_int j + e" "of_int j + e < h"
        by auto
      define st3 where "st3 = st2\<lparr>t_c := (Fin (of_int i), Fin (of_int j + e)),
          t_p := (Fin x', Fin y'), t_normal := (Fin 0, Fin (- e))\<rparr>"
      have a': "advance64 (Fin w) (Fin h) st2 = Inr st3"
        unfolding a st3_def using False by (simp add: Let_def)
      have "pot w h st3 < pot w h st2"
      proof -
        from y(2) show ?thesis
        proof
          assume e: "e = 1"
          have p2: "pot w h st2 = nat \<lfloor>h - of_int j\<rfloor>"
            by (simp add: pot_def y(1) c(1) e)
          have p3: "pot w h st3 = nat \<lfloor>h - (of_int j + 1)\<rfloor>"
            by (simp add: pot_def st3_def y(1) e)
          have eq: "h - (real_of_int j + 1) = h - of_int j - 1" by simp
          have "0 \<le> (h - of_int j) - 1" using r(4) e by simp
          from pot_step[OF this] show ?thesis unfolding p2 p3 eq .
        next
          assume e: "e = - 1"
          have p2: "pot w h st2 = nat \<lfloor>real_of_int j + 1\<rfloor>"
            by (simp add: pot_def y(1) c(1) e)
          have p3: "pot w h st3 = nat \<lfloor>real_of_int j + 1 - 1\<rfloor>"
            by (simp add: pot_def st3_def y(1) e)
          have "0 \<le> (of_int j + 1) - (1 :: real)" using c(4) by simp
          from pot_step[OF this] show ?thesis unfolding p2 p3 .
        qed
      qed
      moreover have "bounded_pos (t_p st3)" using b by (simp add: st3_def bounded_pos_def)
      moreover have "axis_dir (t_normal st3)" using y(2) by (auto simp add: st3_def axis_dir_def)
      moreover have "\<exists>cx' cy'. t_c st3 = (Fin cx', Fin cy') \<and> of_int \<lfloor>cx'\<rfloor> = cx' \<and> 0 \<le> cx' \<and> cx' < w
                 \<and> of_int \<lfloor>cy'\<rfloor> = cy' \<and> 0 \<le> cy' \<and> cy' < h"
      proof (intro exI conjI)
        show "t_c st3 = (Fin (of_int i), Fin (of_int j + e))" by (simp add: st3_def)
        show "of_int \<lfloor>real_of_int j + e\<rfloor> = real_of_int j + e" by (rule of_int_shift[OF y(2)])
        show "of_int \<lfloor>real_of_int i\<rfloor> = real_of_int i" by (simp only: floor_of_int)
      qed (use r in simp_all)
      ultimately show ?thesis unfolding a' by (simp add: st3_def)
    qed
  qed
qed

lemma trackStep64_cases:
  assumes inv: "trace_inv64 st"
  shows "(\<exists>r. trackStep64 rest (Fin w) (Fin h) color st = Inl r
            \<and> (\<forall>sf. r = Inr sf \<longrightarrow> interactionCount sf \<le> interactionCount st + 1)
            \<and> (cell_at (t_grid st) (t_c st) \<noteq> None \<longrightarrow> (\<exists>sf. r = Inr sf)))
       \<or> (\<exists>st'. trackStep64 rest (Fin w) (Fin h) color st = Inr st'
            \<and> trace_inv64 st'
            \<and> (rect_grid w h (t_grid st)
                 \<longrightarrow> rect_grid w h (t_grid st') \<and> cell_at (t_grid st') (t_c st') \<noteq> None)
            \<and> (interactionCount st' = interactionCount st + 1
                 \<or> (interactionCount st' = interactionCount st \<and> pot w h st' < pot w h st)))"
proof (cases "cell_at (t_grid st) (t_c st)")
  case None
  then show ?thesis by (simp add: trackStep64_alt)
next
  case (Some cell)
  from inv have g: "simple_grid (t_grid st)" "small_grid (t_grid st)"
    and d: "axis_dir (t_d st)" and n: "axis_dir (t_normal st)"
    and s: "bounded_pos (t_s st)" and p: "bounded_pos (t_p st)"
    by (simp_all add: trace_inv64_def)
  from cell_at_small[OF g(2) Some] obtain i j :: int where
    c: "t_c st = (Fin (of_int i), Fin (of_int j))" "0 \<le> i" "i < 2 ^ 32" "0 \<le> j" "j < 2 ^ 32"
    by blast
  from p obtain x y where xy: "t_p st = (Fin x, Fin y)" "\<bar>x\<bar> \<le> MAX_VALUE" "\<bar>y\<bar> \<le> MAX_VALUE"
    unfolding bounded_pos_def by blast
  have ib: "\<bar>real_of_int i\<bar> \<le> 2 ^ 32" "\<bar>real_of_int j\<bar> \<le> 2 ^ 32"
  proof -
    have "\<bar>i\<bar> \<le> 2 ^ 32" "\<bar>j\<bar> \<le> 2 ^ 32" using c(2-5) by simp_all
    then have "real_of_int \<bar>i\<bar> \<le> of_int (2 ^ 32)" "real_of_int \<bar>j\<bar> \<le> of_int (2 ^ 32)"
      by (simp_all only: of_int_le_iff)
    then show "\<bar>real_of_int i\<bar> \<le> 2 ^ 32" "\<bar>real_of_int j\<bar> \<le> 2 ^ 32" by simp_all
  qed
  from local_pos64[OF xy(2) ib(1)] obtain lx where
    lx: "sub64 (sub64 (Fin x) (Fin (of_int i))) (Fin (1 / 2)) = Fin lx" "\<bar>lx\<bar> \<le> MAX_VALUE" by blast
  from local_pos64[OF xy(3) ib(2)] obtain ly where
    ly: "sub64 (sub64 (Fin y) (Fin (of_int j))) (Fin (1 / 2)) = Fin ly" "\<bar>ly\<bar> \<le> MAX_VALUE" by blast
  from global_pos64[OF lx(2) ib(1)] obtain gx where
    gx: "add64 (add64 (Fin lx) (Fin (of_int i))) (Fin (1 / 2)) = Fin gx" "\<bar>gx\<bar> \<le> MAX_VALUE" by blast
  from global_pos64[OF ly(2) ib(2)] obtain gy where
    gy: "add64 (add64 (Fin ly) (Fin (of_int j))) (Fin (1 / 2)) = Fin gy" "\<bar>gy\<bar> \<le> MAX_VALUE" by blast
  define r where "r = interact64 rest cell (Fin lx, Fin ly) (t_d st) (t_normal st) color"
  define st1 where "st1 = st\<lparr>t_grid := set_cell (t_grid st) (Fin (of_int j)) (Fin (of_int i)) (snd r)\<rparr>"
  define st2 where "st2 = foldl add_segment64 st1 (fst (fst r))"
  have unf: "trackStep64 rest (Fin w) (Fin h) color st =
      (if snd (fst r) then Inl (Inr st2) else advance64 (Fin w) (Fin h) st2)"
    by (simp add: trackStep64_alt Some[unfolded c(1)] c(1) xy(1) lx(1) ly(1) Let_def r_def st1_def st2_def)
  have sc: "simple_cell cell" by (rule cell_at_simple[OF g(1) Some])
  have res: "simple_cell (snd r)
     \<and> ((fst (fst r) = [] \<and> \<not> snd (fst r))
        \<or> (\<exists>dir. fst (fst r) = [\<lparr>seg_start = (Fin lx, Fin ly), seg_direction = dir\<rparr>]
              \<and> (snd (fst r) \<or> axis_dir dir)))"
  proof (cases cell)
    case EmptyCell
    then show ?thesis by (simp add: r_def BaseCell_interact_def)
  next
    case (BlockCell k)
    then show ?thesis by (simp add: r_def BlockCell_interact_def)
  next
    case (TargetCell k)
    then show ?thesis by (simp add: r_def TargetCell_interact_def)
  next
    case FixedMirrorCell
    then show ?thesis
      using axis_reflect64[OF d n] by (simp add: r_def FixedMirrorCell_interact64_def)
  qed (use sc in simp_all)
  have g1: "simple_grid (t_grid st1)" "small_grid (t_grid st1)"
    using list_all2_set_cell[of simple_cell "t_grid st", OF _ conjunct1[OF res]] g(1)
      small_set_cell[OF g(2)]
    by (simp_all add: st1_def simple_grid_def)
  have rect1: "rect_grid w h (t_grid st) \<Longrightarrow> rect_grid w h (t_grid st1)"
    by (simp add: st1_def rect_set_cell)
  have base: "t_c st2 = t_c st" "t_p st2 = t_p st" "t_normal st2 = t_normal st"
    "t_grid st2 = t_grid st1" "interactionCount st2 = interactionCount st + length (fst (fst r))"
    by (simp_all add: st2_def st1_def)
  from conjunct2[OF res]
  consider (none) "fst (fst r) = []" "\<not> snd (fst r)"
    | (one) dir where "fst (fst r) = [\<lparr>seg_start = (Fin lx, Fin ly), seg_direction = dir\<rparr>]"
        "snd (fst r) \<or> axis_dir dir"
    by blast
  then show ?thesis
  proof cases
    case none
    note e = none
    have st2: "t_d st2 = t_d st" "t_s st2 = t_s st" "interactionCount st2 = interactionCount st"
      by (simp_all add: st2_def st1_def e(1))
    have d2: "axis_dir (t_d st2)" "bounded_pos (t_s st2)" using d s st2 by simp_all
    have c2: "t_c st2 = (Fin (of_int i), Fin (of_int j))" using c(1) base(1) by simp
    from advance64_axis[OF d2 c2 c(2-5), of w h]
    show ?thesis
    proof (elim disjE exE conjE)
      fix sf
      assume "advance64 (Fin w) (Fin h) st2 = Inl (Inr sf)" "interactionCount sf = interactionCount st2"
      then show ?thesis unfolding unf using e(2) st2(3) by simp
    next
      fix st3 cx' cy'
      assume a: "advance64 (Fin w) (Fin h) st2 = Inr st3" "interactionCount st3 = interactionCount st2"
        "t_d st3 = t_d st2" "t_s st3 = t_s st2" "t_grid st3 = t_grid st2" "bounded_pos (t_p st3)"
        "axis_dir (t_normal st3)" "pot w h st3 < pot w h st2"
        "t_c st3 = (Fin cx', Fin cy')" "of_int \<lfloor>cx'\<rfloor> = cx'" "0 \<le> cx'" "cx' < w"
        "of_int \<lfloor>cy'\<rfloor> = cy'" "0 \<le> cy'" "cy' < h"
      have i3: "trace_inv64 st3"
        using a(3-7) d2 g1 base(4) by (simp add: trace_inv64_def)
      have "pot w h st2 = pot w h st" by (rule pot_cong) (simp_all add: st2(1) base(1))
      then have pd: "pot w h st3 < pot w h st" using a(8) by simp
      have "rect_grid w h (t_grid st3) \<and> cell_at (t_grid st3) (t_c st3) \<noteq> None"
        if "rect_grid w h (t_grid st)"
      proof -
        have rg: "rect_grid w h (t_grid st3)" using rect1[OF that] a(5) base(4) by simp
        from rect_cell_at[OF rg a(10,11,12,13,14,15)] show ?thesis using rg a(9) by simp
      qed
      then show ?thesis unfolding unf using e(2) a(1,2) st2(3) i3 pd by simp
    qed
  next
    case one
    note e = one(1) and alt = one(2)
    have st2: "t_d st2 = dir" "t_s st2 = (Fin gx, Fin gy)"
      "interactionCount st2 = interactionCount st + 1"
      by (simp_all add: st2_def st1_def e add_segment64_def c(1) gx(1) gy(1) Let_def)
    show ?thesis
    proof (cases "snd (fst r)")
      case True
      then show ?thesis unfolding unf using st2(3) by simp
    next
      case False
      with alt have ad: "axis_dir dir" by simp
      have d2: "axis_dir (t_d st2)" "bounded_pos (t_s st2)"
        using ad gx(2) gy(2) by (simp_all add: st2 bounded_pos_def)
      have c2: "t_c st2 = (Fin (of_int i), Fin (of_int j))" using c(1) base(1) by simp
      from advance64_axis[OF d2 c2 c(2-5), of w h]
      show ?thesis
      proof (elim disjE exE conjE)
        fix sf
        assume "advance64 (Fin w) (Fin h) st2 = Inl (Inr sf)" "interactionCount sf = interactionCount st2"
        then show ?thesis unfolding unf using False st2(3) by simp
      next
        fix st3 cx' cy'
        assume a: "advance64 (Fin w) (Fin h) st2 = Inr st3" "interactionCount st3 = interactionCount st2"
          "t_d st3 = t_d st2" "t_s st3 = t_s st2" "t_grid st3 = t_grid st2" "bounded_pos (t_p st3)"
          "axis_dir (t_normal st3)" "pot w h st3 < pot w h st2"
          "t_c st3 = (Fin cx', Fin cy')" "of_int \<lfloor>cx'\<rfloor> = cx'" "0 \<le> cx'" "cx' < w"
          "of_int \<lfloor>cy'\<rfloor> = cy'" "0 \<le> cy'" "cy' < h"
        have i3: "trace_inv64 st3"
          using a(3-7) d2 g1 base(4) by (simp add: trace_inv64_def)
        have "rect_grid w h (t_grid st3) \<and> cell_at (t_grid st3) (t_c st3) \<noteq> None"
          if "rect_grid w h (t_grid st)"
        proof -
          have rg: "rect_grid w h (t_grid st3)" using rect1[OF that] a(5) base(4) by simp
          from rect_cell_at[OF rg a(10,11,12,13,14,15)] show ?thesis using rg a(9) by simp
        qed
        then show ?thesis unfolding unf using False a(1,2) st2(3) i3 by simp
      qed
    qed
  qed
qed

lemma trackLoop64_terminates:
  assumes "trace_inv64 st" "interactionCount st \<le> 100"
  shows "\<exists>r. trackLoop64 rest (Fin w) (Fin h) color st = Some r
           \<and> (\<forall>sf. r = Inr sf \<longrightarrow> interactionCount sf \<le> 100)
           \<and> (rect_grid w h (t_grid st) \<and> cell_at (t_grid st) (t_c st) \<noteq> None
                \<longrightarrow> (\<exists>sf. r = Inr sf))"
  using assms
proof (induction st rule: wf_induct_rule[OF wf_measures[of "[\<lambda>st. 100 - interactionCount st, pot w h]"]])
  case (1 st)
  show ?case
  proof (cases "interactionCount st < 100")
    case False
    then show ?thesis using 1(3)
      by (subst trackLoop64.simps) (simp add: MAX_INTERACTIONS_def)
  next
    case True
    have unf: "trackLoop64 rest (Fin w) (Fin h) color st =
        (case trackStep64 rest (Fin w) (Fin h) color st of Inl r \<Rightarrow> Some r
         | Inr st' \<Rightarrow> trackLoop64 rest (Fin w) (Fin h) color st')"
      using True by (subst trackLoop64.simps) (simp add: MAX_INTERACTIONS_def)
    from trackStep64_cases[OF 1(2), of rest w h color]
    consider (stop) r where "trackStep64 rest (Fin w) (Fin h) color st = Inl r"
        "\<forall>sf. r = Inr sf \<longrightarrow> interactionCount sf \<le> interactionCount st + 1"
        "cell_at (t_grid st) (t_c st) \<noteq> None \<longrightarrow> (\<exists>sf. r = Inr sf)"
      | (go) st' where "trackStep64 rest (Fin w) (Fin h) color st = Inr st'"
        "trace_inv64 st'"
        "rect_grid w h (t_grid st)
           \<longrightarrow> rect_grid w h (t_grid st') \<and> cell_at (t_grid st') (t_c st') \<noteq> None"
        "interactionCount st' = interactionCount st + 1
           \<or> (interactionCount st' = interactionCount st \<and> pot w h st' < pot w h st)"
      by blast
    then show ?thesis
    proof cases
      case stop
      then show ?thesis unfolding unf using True by auto
    next
      case go
      have le: "interactionCount st' \<le> 100" using go(4) True by auto
      have "(st', st) \<in> measures [\<lambda>st. 100 - interactionCount st, pot w h]"
        using go(4) True by auto
      from 1(1)[OF this go(2) le] go(3) show ?thesis unfolding unf go(1) by auto
    qed
  qed
qed

subsection \<open>A beam that never leaves its cell\<close>

lemma trackLoop64_repeats:
  assumes "trackStep64 rest W H color st = Inr st" "interactionCount st < MAX_INTERACTIONS"
  shows "trackLoop64 rest W H color st = None"
proof (rule ccontr)
  assume "trackLoop64 rest W H color st \<noteq> None"
  then obtain y where y: "trackLoop64 rest W H color st = Some y" by auto
  have "\<not> (rest = rest \<and> W = W \<and> H = H \<and> color = color \<and> st = st)"
  proof (rule trackLoop64.raw_induct[where P = "\<lambda>r' w' h' c' s' y'.
            \<not> (r' = rest \<and> w' = W \<and> h' = H \<and> c' = color \<and> s' = st)", OF _ y])
    fix f r' w' h' c' s' y'
    assume ih: "\<And>r' w' h' c' s' y'. f r' w' h' c' s' = Some y'
                  \<Longrightarrow> \<not> (r' = rest \<and> w' = W \<and> h' = H \<and> c' = color \<and> s' = st)"
      and body: "(if interactionCount s' < MAX_INTERACTIONS
                  then case trackStep64 r' w' h' c' s' of Inl r \<Rightarrow> Some r
                       | Inr st' \<Rightarrow> f r' w' h' c' st'
                  else Some (Inr s')) = Some y'"
    show "\<not> (r' = rest \<and> w' = W \<and> h' = H \<and> c' = color \<and> s' = st)"
    proof
      assume "r' = rest \<and> w' = W \<and> h' = H \<and> c' = color \<and> s' = st"
      with body assms have "f rest W H color st = Some y'" by simp
      from ih[OF this] show False by simp
    qed
  qed
  then show False by simp
qed

lemma half_over_min_double: "1 / (2 * two_p (- 1074)) = two_p 1073"
proof -
  have "two_p (- 1) / two_p (- 1074) = two_p ((- 1) - (- 1074))" by (simp only: two_p_diff)
  moreover have "two_p (- 1) = 1 / 2" by (simp add: two_p_def powr_minus_divide)
  ultimately show ?thesis by simp
qed

lemma div64_overflow: "div64 (Fin (1 / 2)) (Fin min_double) = PInf"
proof -
  have "two_p 1024 \<le> two_p 1073" by (rule two_p_mono) simp
  from rnd_overflow[OF this] show ?thesis
    by (simp add: div64_def half_over_min_double min_double_def)
qed

lemma init_trace_count [simp]: "interactionCount (init_trace grid b) = 0"
  by (simp add: init_trace_def)

lemma min_double_pos: "0 < min_double"
  by (simp add: min_double_def)

lemma cell_at_one: "cell_at one_cell_grid (Fin 0, Fin 0) = Some EmptyCell"
  by (simp add: cell_at_def one_cell_grid_def array_get_def)

lemma set_cell_one: "set_cell one_cell_grid (Fin 0) (Fin 0) EmptyCell = one_cell_grid"
  by (simp add: set_cell_def one_cell_grid_def array_get_def array_set_def)

lemma advance64_stuck:
  assumes "t_s st = (Fin (1 / 2), Fin (1 / 2))" "t_d st = (Fin min_double, Fin 0)"
    "t_c st = (Fin 0, Fin 0)"
  shows "advance64 (Fin 1) (Fin 1) st
           = Inr (st\<lparr>t_c := (Fin 0, Fin 0), t_p := (PInf, NaN), t_normal := (Fin 0, Fin 0)\<rparr>)"
proof -
  have a: "add64 (Fin 0) (Fin 1) = Fin 1" "add64 (Fin 0) (Fin 0) = Fin 0"
    using rnd_id[OF is_double_1] by (simp_all add: add64_def)
  have b: "sub64 (Fin 1) (Fin (1 / 2)) = Fin (1 / 2)"
    using rnd_id[OF is_double_half] by (simp add: sub64_def)
  have c: "mul64 (Fin min_double) PInf = PInf" "mul64 (Fin 0) PInf = NaN"
    using min_double_pos by (simp_all add: mul64_def)
  have d: "add64 (Fin (1 / 2)) PInf = PInf" "add64 (Fin (1 / 2)) NaN = NaN"
    by (simp_all add: add64_def)
  have e: "min_double \<noteq> 0" using min_double_pos by simp
  show ?thesis
    by (simp add: advance64_def assms Let_def strict_neq_def strict_eq_def a b c d e
        min_double_pos div64_overflow)
qed

lemma first_pass:
  "trackStep64 rest (Fin 1) (Fin 1) color (init_trace one_cell_grid slow_beam) = Inr stuck_state"
proof -
  have l: "sub64 (sub64 (Fin (1 / 2)) (Fin 0)) (Fin (1 / 2)) = Fin 0"
    using rnd_id[OF is_double_half] by (simp add: sub64_def)
  show ?thesis
    unfolding trackStep64_alt
    by (simp add: init_trace_def slow_beam_def cell_at_one set_cell_one BaseCell_interact_def
        l Let_def advance64_stuck stuck_state_def)
qed

lemma later_passes:
  "trackStep64 rest (Fin 1) (Fin 1) color stuck_state = Inr stuck_state"
proof -
  have l: "sub64 (sub64 PInf (Fin 0)) (Fin (1 / 2)) = PInf"
    "sub64 (sub64 NaN (Fin 0)) (Fin (1 / 2)) = NaN"
    by (simp_all add: sub64_def minus_jsnum_def)
  show ?thesis
    unfolding trackStep64_alt
    by (simp add: stuck_state_def cell_at_one set_cell_one BaseCell_interact_def
        l Let_def advance64_stuck)
qed

lemma slow_beam_never_ends:
  "trackBeam64 rest (Fin 1) (Fin 1) one_cell_grid slow_beam = None"
proof -
  have "trackLoop64 rest (Fin 1) (Fin 1) (beam_color slow_beam) stuck_state = None"
    by (rule trackLoop64_repeats[OF later_passes]) (simp add: stuck_state_def MAX_INTERACTIONS_def)
  then show ?thesis
    unfolding trackBeam64_def
    by (subst trackLoop64.simps) (simp add: first_pass MAX_INTERACTIONS_def)
qed


subsection \<open>Termination for a unit direction\<close>

lemma is_double_three_halves: "is_double (3 / 2)"
  unfolding is_double_def
  by (rule exI[of _ 3], rule exI[of _ "- 1"]) (simp add: two_p_def powr_minus_divide)




end
